theory Spec2Isabelle
  imports Complex_Main
begin

section \<open>Python values, errors and tensors\<close>

text \<open>
  The exceptions that \<^verbatim>\<open>attribute.py\<close> raises itself (\<^verbatim>\<open>ValueError\<close> with its
  message, the \<^verbatim>\<open>assert\<close>) and the ones the indexing and stacking operations it calls
  raise. A function that can raise returns \<open>py_error + 'a\<close>, \<open>Inl\<close> being the exception.
\<close>

datatype py_error =
    ValueError string
  | AssertionError
  | IndexError
  | RuntimeError
  | TypeError
  | AttributeError

text \<open>
  Tensor elements are modelled as real numbers. One example (a one-hot encoded sequence, or
  its gradient) is a matrix \<open>alphabet \<times> length\<close>; a batch is a list of examples, so a tensor
  of shape \<open>(n, alphabet, length)\<close> is a list of \<open>n\<close> lists of \<open>alphabet\<close> rows of
  \<open>length\<close> numbers.
\<close>

type_synonym seq = "real list list"
type_synonym tensor = "seq list"

text \<open>
  The element type of a tensor, as far as the code depends on it: a floating-point type,
  whose values are taken as the real numbers, or a signed integer type, whose values are the
  integers (overflow aside). Storing a number in a tensor converts it to the element type of
  the tensor: a floating-point tensor keeps it, an integer tensor truncates it toward zero.
  Boolean and unsigned tensors are left out.
\<close>

datatype dtype = Floating | Integer

definition to_dtype :: "dtype \<Rightarrow> real \<Rightarrow> real" where
  "to_dtype d v =
     (case d of
        Floating \<Rightarrow> v
      | Integer \<Rightarrow> (if v < 0 then of_int \<lceil>v\<rceil> else of_int \<lfloor>v\<rfloor>))"

section \<open>The hypothetical-attribution projector\<close>

text \<open>
  The Python values that \<^verbatim>\<open>hypothetical_attributions\<close> inspects with
  \<^verbatim>\<open>isinstance\<close>: a tensor, a tuple, or any other object.
\<close>

datatype py_object = Tensor dtype tensor | Tuple "py_object list" | Other

text \<open>
  \<^verbatim>\<open>t.shape\<close>. The sizes of the inner axes are read off the first example and its
  first row, so all tensors without elements share the shape of the empty lists that
  represent them.
\<close>

definition shape :: "tensor \<Rightarrow> nat \<times> nat \<times> nat" where
  "shape t =
     (length t,
      (case t of [] \<Rightarrow> 0 | s # _ \<Rightarrow> length s),
      (case t of [] \<Rightarrow> 0 | s # _ \<Rightarrow> (case s of [] \<Rightarrow> 0 | r # _ \<Rightarrow> length r)))"

text \<open>A nested list is a tensor of shape \<open>(n, a, l)\<close> when it is rectangular.\<close>

definition is_tensor :: "nat \<times> nat \<times> nat \<Rightarrow> tensor \<Rightarrow> bool" where
  "is_tensor sh t \<longleftrightarrow>
     (case sh of (n, a, l) \<Rightarrow>
        length t = n \<and> list_all (\<lambda>s. length s = a \<and> list_all (\<lambda>r. length r = l) s) t)"

text \<open>\<^verbatim>\<open>torch.zeros_like(t)\<close>\<close>

definition zeros_like :: "tensor \<Rightarrow> tensor" where
  "zeros_like t = map (map (map (\<lambda>_. 0))) t"

text \<open>\<^verbatim>\<open>t[:, i] = c\<close> for a number \<open>c\<close>\<close>

definition fill_channel :: "tensor \<Rightarrow> nat \<Rightarrow> real \<Rightarrow> tensor" where
  "fill_channel t i c = map (\<lambda>s. s[i := map (\<lambda>_. c) (s ! i)]) t"

text \<open>Elementwise difference and product of tensors of one shape.\<close>

definition tensor_sub :: "tensor \<Rightarrow> tensor \<Rightarrow> tensor" where
  "tensor_sub a b = map2 (map2 (map2 (-))) a b"

definition tensor_mul :: "tensor \<Rightarrow> tensor \<Rightarrow> tensor" where
  "tensor_mul a b = map2 (map2 (map2 (*))) a b"

text \<open>\<^verbatim>\<open>torch.sum(t, dim=1)\<close>: the sum over the alphabet axis, one row per example.\<close>

definition sum_dim1 :: "tensor \<Rightarrow> real list list" where
  "sum_dim1 t =
     map (\<lambda>s. map (\<lambda>l. sum_list (map (\<lambda>r. r ! l) s))
                 [0..<(case s of [] \<Rightarrow> 0 | r # _ \<Rightarrow> length r)]) t"

text \<open>
  \<^verbatim>\<open>t[:, i] = v\<close> for one row \<open>v ! k\<close> per example, where \<open>t\<close> has the element type
  \<open>d\<close>
\<close>

definition set_channel :: "dtype \<Rightarrow> tensor \<Rightarrow> nat \<Rightarrow> real list list \<Rightarrow> tensor" where
  "set_channel d t i v = map2 (\<lambda>s r. s[i := map (to_dtype d) r]) t v"

text \<open>
  The body of the loop \<^verbatim>\<open>for i in range(X[0].shape[1])\<close>. Both
  \<^verbatim>\<open>hypothetical_input\<close> and \<^verbatim>\<open>projected_contribs\<close> have the element type \<open>d\<close> of
  \<^verbatim>\<open>X[0]\<close>; the difference, the product and the sum are computed in the common type of
  their operands, which loses nothing.
\<close>

definition hyp_step :: "dtype \<Rightarrow> tensor \<Rightarrow> tensor \<Rightarrow> tensor \<Rightarrow> tensor \<Rightarrow> nat \<Rightarrow> tensor" where
  "hyp_step d X refs mults projected_contribs i =
     (let hypothetical_input = fill_channel (zeros_like X) i (to_dtype d 1);
          hypothetical_diffs = tensor_sub hypothetical_input refs;
          hypothetical_contribs = tensor_mul hypothetical_diffs mults
      in set_channel d projected_contribs i (sum_dim1 hypothetical_contribs))"

text \<open>
  \<^verbatim>\<open>multipliers[0].shape\<close>, read in the third check of every round of the validation
  loop; \<^verbatim>\<open>multipliers\<close> is the first value checked, so it is a tuple that starts with a
  tensor whenever this is evaluated.
\<close>

definition first_shape :: "py_object \<Rightarrow> nat \<times> nat \<times> nat" where
  "first_shape val = (case val of Tuple (Tensor d t # _) \<Rightarrow> shape t | _ \<Rightarrow> (0, 0, 0))"

text \<open>One round of the loop \<^verbatim>\<open>for val in multipliers, X, references\<close>.\<close>

definition check_input :: "py_object \<Rightarrow> py_object \<Rightarrow> py_error + dtype \<times> tensor" where
  "check_input multipliers val =
     (case val of
        Tuple [v] \<Rightarrow>
          (case v of
             Tensor d t \<Rightarrow>
               (if shape t \<noteq> first_shape multipliers
                then Inl (ValueError ''Shape of all tensors must match.'')
                else Inr (d, t))
           | _ \<Rightarrow> Inl (ValueError ''The first element of each input must be a tensor.''))
      | _ \<Rightarrow> Inl (ValueError ''All inputs must be one-element tuples.''))"

text \<open>
  \<^verbatim>\<open>hypothetical_attributions(multipliers, X, references)\<close>. The result is created by
  \<^verbatim>\<open>torch.zeros_like(references[0], dtype=X[0].dtype)\<close>: it has the shape of the
  references and the element type of \<^verbatim>\<open>X[0]\<close>.
\<close>

definition hypothetical_attributions ::
  "py_object \<Rightarrow> py_object \<Rightarrow> py_object \<Rightarrow> py_error + py_object" where
  "hypothetical_attributions multipliers X references =
     (case check_input multipliers multipliers of
        Inl e \<Rightarrow> Inl e
      | Inr (dm, m) \<Rightarrow>
          (case check_input multipliers X of
             Inl e \<Rightarrow> Inl e
           | Inr (dx, x) \<Rightarrow>
               (case check_input multipliers references of
                  Inl e \<Rightarrow> Inl e
                | Inr (dr, r) \<Rightarrow>
                    Inr (Tuple [Tensor dx (foldl (hyp_step dx x r m) (zeros_like r)
                                             [0..<fst (snd (shape x))])]))))"

text \<open>
  For the statements: the tensor of shape \<open>(n, a, l)\<close> with the element \<open>f k c j\<close> at
  example \<open>k\<close>, character \<open>c\<close> and position \<open>j\<close>; and the contribution of becoming
  character \<open>c\<close> at position \<open>j\<close> of example \<open>k\<close>, which is the sum over the alphabet of
  (the input that is one-hot at \<open>c\<close>, minus the reference) times the multiplier.
\<close>

definition tab3 :: "nat \<Rightarrow> nat \<Rightarrow> nat \<Rightarrow> (nat \<Rightarrow> nat \<Rightarrow> nat \<Rightarrow> real) \<Rightarrow> tensor" where
  "tab3 n a l f = map (\<lambda>k. map (\<lambda>c. map (\<lambda>j. f k c j) [0..<l]) [0..<a]) [0..<n]"

definition projection :: "tensor \<Rightarrow> tensor \<Rightarrow> nat \<Rightarrow> nat \<Rightarrow> nat \<Rightarrow> nat \<Rightarrow> real" where
  "projection r m a k c j = (\<Sum>i<a. ((if i = c then 1 else 0) - r ! k ! i ! j) * m ! k ! i ! j)"

section \<open>The layers of a model\<close>

text \<open>
  The classes of \<^verbatim>\<open>torch.nn\<close> modules that the engine tells apart with
  \<^verbatim>\<open>isinstance\<close>. \<open>MaxPoolNd\<close> is the base class
  \<^verbatim>\<open>torch.nn.modules.pooling._MaxPoolNd\<close> of the three max-pooling layers
  \<^verbatim>\<open>MaxPool1d\<close>, \<^verbatim>\<open>MaxPool2d\<close> and \<^verbatim>\<open>MaxPool3d\<close>; the adaptive and the fractional
  max-pooling layers have base classes of their own, which are not told apart here from
  \<open>Module\<close>, from which every class derives.
\<close>

datatype layer_class =
    Module
  | Sequential
  | Linear
  | Conv1d
  | Flatten
  | AvgPool1d
  | ReLU
  | Sigmoid
  | Tanh
  | MaxPoolNd
  | MaxPool1d
  | MaxPool2d
  | MaxPool3d
  | AdaptiveMaxPool1d
  | FractionalMaxPool2d

fun base_class :: "layer_class \<Rightarrow> layer_class option" where
  "base_class Module = None"
| "base_class MaxPool1d = Some MaxPoolNd"
| "base_class MaxPool2d = Some MaxPoolNd"
| "base_class MaxPool3d = Some MaxPoolNd"
| "base_class c = Some Module"

definition issubclass :: "layer_class \<Rightarrow> layer_class \<Rightarrow> bool" where
  "issubclass c d \<longleftrightarrow> c = d \<or> base_class c = Some d \<or> d = Module"

text \<open>
  A module tree. Every module object has an identity (its address in the store of mutable
  module state below), a class and its child modules; the same object may occur at several
  places of a tree.
\<close>

type_synonym addr = nat

datatype module_tree = Node (ident: addr) (kind: layer_class) (children: "module_tree list")

text \<open>\<^verbatim>\<open>isinstance(module, classes)\<close> with a tuple of classes.\<close>

definition isinstance :: "module_tree \<Rightarrow> layer_class list \<Rightarrow> bool" where
  "isinstance m classes \<longleftrightarrow> list_ex (issubclass (kind m)) classes"

text \<open>
  \<^verbatim>\<open>model.named_modules()\<close>: the model itself, then the modules below it, depth first.
  (The names, and the removal of objects met twice, play no role in what follows.)
\<close>

fun named_modules :: "module_tree \<Rightarrow> module_tree list" where
  "named_modules (Node a c ms) = Node a c ms # concat (map named_modules ms)"

text \<open>
  Names are the ones of the source. A name of the source that ends in an underscore
  (\<^verbatim>\<open>inputs_\<close>, \<^verbatim>\<open>attr_\<close>) is written with a prime instead, a private method without
  its leading underscore, and \<^verbatim>\<open>module.input\<close> and \<^verbatim>\<open>module.output\<close> are the fields
  \<open>module_input\<close> and \<open>module_output\<close>.
\<close>

section \<open>Hooks and the state of the modules\<close>

text \<open>
  What \<^verbatim>\<open>torch\<close> keeps for every module object and what the engine changes: the three
  hook tables (ordered dictionaries from a handle's key to the hook), the mark
  \<^verbatim>\<open>_is_full_backward_hook\<close>, and the attributes \<^verbatim>\<open>module.input\<close> and
  \<^verbatim>\<open>module.output\<close> that the engine's forward hooks write (\<open>None\<close> while the attribute
  does not exist). The hooks are the three bound methods of the engine, or a hook of some
  other consumer. The table of backward hooks holds either hooks of the old kind
  (\<^verbatim>\<open>register_backward_hook\<close>) or full backward hooks: the mark is \<open>None\<close> until the
  first backward hook of either kind is registered and \<open>False\<close> or \<open>True\<close> from then on,
  also when that hook has been removed again.
\<close>

datatype hook = EngineForwardHook | EngineForwardPreHook | EngineBackwardHook | ForeignHook nat

text \<open>The input or the output of a layer for a batch: one row of numbers per example.\<close>

type_synonym activation = "real list list"

record module_state =
  forward_hooks :: "(nat \<times> hook) list"
  forward_pre_hooks :: "(nat \<times> hook) list"
  backward_hooks :: "(nat \<times> hook) list"
  is_full_backward_hook :: "bool option"
  module_input :: "activation option"
  module_output :: "activation option"

text \<open>
  The state outside the engine object: the modules by address, the counter that numbers
  the handles (\<^verbatim>\<open>RemovableHandle.next_id\<close>), the convergence deltas listed by each
  warning issued with \<^verbatim>\<open>warnings.warn\<close>, and the ones written by \<^verbatim>\<open>print\<close>.
\<close>

record torch_state =
  modules :: "addr \<Rightarrow> module_state"
  next_id :: nat
  warned :: "real list list"
  printed :: "real list list"

text \<open>
  A handle as \<^verbatim>\<open>register_forward_hook\<close> and its siblings return it: the module and the
  hook table it was registered in, and its key there.
\<close>

datatype hook_table = ForwardHooks | ForwardPreHooks | BackwardHooks

record handle =
  h_module :: addr
  h_table :: hook_table
  h_id :: nat

definition hooks_of :: "hook_table \<Rightarrow> module_state \<Rightarrow> (nat \<times> hook) list" where
  "hooks_of tbl ms =
     (case tbl of
        ForwardHooks \<Rightarrow> forward_hooks ms
      | ForwardPreHooks \<Rightarrow> forward_pre_hooks ms
      | BackwardHooks \<Rightarrow> backward_hooks ms)"

definition set_hooks :: "hook_table \<Rightarrow> (nat \<times> hook) list \<Rightarrow> module_state \<Rightarrow> module_state" where
  "set_hooks tbl hs ms =
     (case tbl of
        ForwardHooks \<Rightarrow> ms\<lparr>forward_hooks := hs\<rparr>
      | ForwardPreHooks \<Rightarrow> ms\<lparr>forward_pre_hooks := hs\<rparr>
      | BackwardHooks \<Rightarrow> ms\<lparr>backward_hooks := hs\<rparr>)"

text \<open>
  \<^verbatim>\<open>handle = RemovableHandle(table)\<close> followed by \<^verbatim>\<open>table[handle.id] = hook\<close>: a
  handle with the next key is made and the hook is entered under that key.
\<close>

definition add_hook :: "addr \<Rightarrow> hook_table \<Rightarrow> hook \<Rightarrow> torch_state \<Rightarrow> handle \<times> torch_state" where
  "add_hook a tbl h st =
     (\<lparr>h_module = a, h_table = tbl, h_id = next_id st\<rparr>,
      st\<lparr>modules := (modules st)
             (a := set_hooks tbl (hooks_of tbl (modules st a) @ [(next_id st, h)]) (modules st a)),
         next_id := Suc (next_id st)\<rparr>)"

text \<open>
  \<^verbatim>\<open>module.register_forward_hook(hook)\<close> and
  \<^verbatim>\<open>module.register_forward_pre_hook(hook)\<close>, which do not raise.
\<close>

definition register_forward_hook :: "addr \<Rightarrow> hook \<Rightarrow> torch_state \<Rightarrow> handle \<times> torch_state" where
  "register_forward_hook a h st = add_hook a ForwardHooks h st"

definition register_forward_pre_hook :: "addr \<Rightarrow> hook \<Rightarrow> torch_state \<Rightarrow> handle \<times> torch_state" where
  "register_forward_pre_hook a h st = add_hook a ForwardPreHooks h st"

text \<open>
  \<^verbatim>\<open>module.register_full_backward_hook(hook)\<close>: it raises \<^verbatim>\<open>RuntimeError\<close> on a
  module marked as holding backward hooks of the old kind; otherwise it marks the module as
  holding full backward hooks and enters the hook.
\<close>

definition register_full_backward_hook ::
  "addr \<Rightarrow> hook \<Rightarrow> torch_state \<Rightarrow> py_error + handle \<times> torch_state" where
  "register_full_backward_hook a h st =
     (if is_full_backward_hook (modules st a) = Some False then Inl RuntimeError
      else Inr (add_hook a BackwardHooks h
                  (st\<lparr>modules := (modules st)
                        (a := (modules st a)\<lparr>is_full_backward_hook := Some True\<rparr>)\<rparr>)))"

text \<open>\<^verbatim>\<open>handle.remove()\<close>: the key is deleted from the table if it is there.\<close>

definition remove :: "handle \<Rightarrow> torch_state \<Rightarrow> torch_state" where
  "remove h st =
     st\<lparr>modules := (modules st)
           (h_module h :=
              set_hooks (h_table h)
                (filter (\<lambda>e. fst e \<noteq> h_id h) (hooks_of (h_table h) (modules st (h_module h))))
                (modules st (h_module h)))\<rparr>"

section \<open>The model as the engine sees it\<close>

text \<open>
  The model is opaque. Of one forward and backward pass on a batch the engine observes the
  calls of the modules, in order (the positional inputs when a module is entered, and its
  output when it returns), and the end of the pass: an exception, or the output of the
  model together with the gradient that \<^verbatim>\<open>torch.autograd.grad\<close> returns for the first
  half of the batch. The pass depends on the state of the modules, since the hooks in place
  take part in it.
\<close>

datatype event = PreForward addr "activation list" | PostForward addr "activation list" activation

record run =
  calls :: "event list"
  outcome :: "py_error + activation \<times> tensor"

record nn_model =
  tree :: module_tree
  forward_backward :: "torch_state \<Rightarrow> tensor \<Rightarrow> activation list option \<Rightarrow> run"

section \<open>The engine\<close>

record DeepLiftShap =
  model :: nn_model
  ignore_layers :: "layer_class list"
  eps :: real
  warning_threshold :: real
  verbose :: bool
  forward_handles :: "handle list"
  backward_handles :: "handle list"

definition max_pool_message :: string where
  "max_pool_message = ''Cannot use this implementation of DeepLiftShap with max pooling layers. Please use the implementation in Captum.''"

text \<open>The loop of \<^verbatim>\<open>__init__\<close> over \<^verbatim>\<open>model.named_modules()\<close>.\<close>

fun check_modules :: "module_tree list \<Rightarrow> py_error + unit" where
  "check_modules [] = Inr ()"
| "check_modules (m # ms) =
     (if isinstance m [MaxPoolNd] then Inl (ValueError max_pool_message)
      else check_modules ms)"

text \<open>
  \<^verbatim>\<open>DeepLiftShap.__init__(model, ignore_layers, eps, warning_threshold, verbose)\<close>. The
  defaults of the source are \<open>[ReLU]\<close>, \<open>1e-6\<close>, \<open>0.001\<close> and \<open>False\<close>.
\<close>

definition DeepLiftShap_init ::
  "nn_model \<Rightarrow> layer_class list \<Rightarrow> real \<Rightarrow> real \<Rightarrow> bool \<Rightarrow> py_error + DeepLiftShap" where
  "DeepLiftShap_init mdl ignore e thr verb =
     (case check_modules (named_modules (tree mdl)) of
        Inl err \<Rightarrow> Inl err
      | Inr _ \<Rightarrow> Inr \<lparr> model = mdl, ignore_layers = ignore, eps = e,
                      warning_threshold = thr, verbose = verb,
                      forward_handles = [], backward_handles = [] \<rparr>)"

subsection \<open>Registering the hooks\<close>

definition can_register_hook :: "DeepLiftShap \<Rightarrow> torch_state \<Rightarrow> module_tree \<Rightarrow> bool" where
  "can_register_hook self st layer =
     (if length (backward_hooks (modules st (ident layer))) > 0 then False
      else if \<not> isinstance layer (ignore_layers self) then False
      else True)"

text \<open>
  \<^verbatim>\<open>_register_hooks(module)\<close>, as \<^verbatim>\<open>model.apply\<close> calls it: with
  \<^verbatim>\<open>attribute_to_layer_input\<close> at its default \<^verbatim>\<open>True\<close>, so that the second disjunct of
  the guard is false. The result is the exception raised, if any, with the engine and the
  state of the modules as they are then: the three handles are appended to the lists of the
  engine after the third registration, so when that one raises, the first two hooks are
  registered and the engine holds no handle for them.
\<close>

definition register_hooks ::
  "module_tree \<Rightarrow> DeepLiftShap \<times> torch_state \<Rightarrow> py_error option \<times> DeepLiftShap \<times> torch_state" where
  "register_hooks layer s =
     (case s of (self, st) \<Rightarrow>
        if \<not> can_register_hook self st layer then (None, self, st)
        else
          (case register_forward_hook (ident layer) EngineForwardHook st of
             (forward_handle, st1) \<Rightarrow>
           (case register_forward_pre_hook (ident layer) EngineForwardPreHook st1 of
             (pre_forward_handle, st2) \<Rightarrow>
           (case register_full_backward_hook (ident layer) EngineBackwardHook st2 of
              Inl e \<Rightarrow> (Some e, self, st2)
            | Inr (backward_handle, st3) \<Rightarrow>
               (None,
                self\<lparr>forward_handles := forward_handles self @ [forward_handle, pre_forward_handle],
                     backward_handles := backward_handles self @ [backward_handle]\<rparr>,
                st3)))))"

text \<open>
  \<^verbatim>\<open>module.apply(fn)\<close>: the children first, then the module itself. An exception
  raised by \<^verbatim>\<open>fn\<close> ends the traversal.
\<close>

fun apply_fn ::
  "(module_tree \<Rightarrow> 's \<Rightarrow> py_error option \<times> 's) \<Rightarrow> module_tree \<Rightarrow> 's \<Rightarrow> py_error option \<times> 's" where
  "apply_fn fn (Node a c ms) s =
     (case fold (\<lambda>m r. case r of (None, s1) \<Rightarrow> apply_fn fn m s1 | (Some e, s1) \<Rightarrow> (Some e, s1))
             ms (None, s) of
        (None, s1) \<Rightarrow> fn (Node a c ms) s1
      | (Some e, s1) \<Rightarrow> (Some e, s1))"

subsection \<open>The hooks\<close>

text \<open>\<^verbatim>\<open>module.input = inputs[0].clone().detach()\<close>\<close>

definition forward_pre_hook :: "module_state \<Rightarrow> activation list \<Rightarrow> py_error + module_state" where
  "forward_pre_hook ms inputs =
     (case inputs of
        [] \<Rightarrow> Inl IndexError
      | x # _ \<Rightarrow> Inr (ms\<lparr>module_input := Some x\<rparr>))"

text \<open>\<^verbatim>\<open>module.output = outputs.clone().detach()\<close>\<close>

definition forward_hook ::
  "module_state \<Rightarrow> activation list \<Rightarrow> activation \<Rightarrow> py_error + module_state" where
  "forward_hook ms inputs outputs = Inr (ms\<lparr>module_output := Some outputs\<rparr>)"

text \<open>
  \<^verbatim>\<open>torch.chunk(t, 2)\<close> along the first axis: chunks of \<open>\<lceil>length t / 2\<rceil>\<close> rows, which is
  one chunk for a single row and two chunks otherwise (two empty ones for no row).
\<close>

definition chunk :: "'a list \<Rightarrow> 'a list list" where
  "chunk t =
     (let k = (length t + 1) div 2
      in if t = [] then [[], []]
         else if drop k t = [] then [take k t]
         else [take k t, drop k t])"

text \<open>
  An elementwise operation on two activations. Operands of one shape are combined element
  by element. Where the shapes differ \<^verbatim>\<open>torch\<close> broadcasts them if it can and raises
  \<^verbatim>\<open>RuntimeError\<close> otherwise; of the two only the exception is rendered here, and every
  statement below is about operands of one shape.
\<close>

definition elementwise ::
  "(real \<Rightarrow> real \<Rightarrow> real) \<Rightarrow> activation \<Rightarrow> activation \<Rightarrow> py_error + activation" where
  "elementwise f a b =
     (if map length a = map length b then Inr (map2 (map2 f) a b) else Inl RuntimeError)"

text \<open>\<^verbatim>\<open>torch.sub(*chunks)\<close>: a \<^verbatim>\<open>TypeError\<close> unless there are two chunks.\<close>

definition sub_chunks :: "activation list \<Rightarrow> py_error + activation" where
  "sub_chunks cs = (case cs of [a, b] \<Rightarrow> elementwise (-) a b | _ \<Rightarrow> Inl TypeError)"

text \<open>\<^verbatim>\<open>torch.where(abs(d) < e, a, b)\<close>, again for operands of one shape.\<close>

definition where_lt :: "real \<Rightarrow> activation \<Rightarrow> activation \<Rightarrow> activation \<Rightarrow> py_error + activation" where
  "where_lt e d a b =
     (if map length d = map length a \<and> map length d = map length b
      then Inr (map (\<lambda>(dr, ar, br). map (\<lambda>(x, y, z). if \<bar>x\<bar> < e then y else z) (zip dr (zip ar br)))
                 (zip d (zip a b)))
      else Inl RuntimeError)"

text \<open>
  \<^verbatim>\<open>_backward_hook(module, grad_input, grad_output)\<close>. Reading \<^verbatim>\<open>module.input\<close> or
  \<^verbatim>\<open>module.output\<close> before a forward hook has written it is an \<^verbatim>\<open>AttributeError\<close>.
  The quotient \<open>delta_out / delta_in\<close> is the one of the real numbers; the elements where
  \<open>delta_in\<close> is zero are the ones that \<^verbatim>\<open>torch.where\<close> replaces when \<open>eps\<close> is positive.
\<close>

definition backward_hook ::
  "DeepLiftShap \<Rightarrow> module_state \<Rightarrow> activation list \<Rightarrow> activation list \<Rightarrow> py_error + activation list" where
  "backward_hook self ms grad_input grad_output =
     (case (module_input ms, module_output ms) of
        (Some inp, Some out) \<Rightarrow>
          (case sub_chunks (chunk inp) of
             Inl e \<Rightarrow> Inl e
           | Inr delta_in' \<Rightarrow>
          (case sub_chunks (chunk out) of
             Inl e \<Rightarrow> Inl e
           | Inr delta_out' \<Rightarrow>
          (let delta_in = delta_in' @ delta_in';
               delta_out = delta_out' @ delta_out'
           in case elementwise (/) delta_out delta_in of
                Inl e \<Rightarrow> Inl e
              | Inr delta \<Rightarrow>
             (case (grad_input, grad_output) of
                (gi # _, go # _) \<Rightarrow>
                  (case elementwise (*) go delta of
                     Inl e \<Rightarrow> Inl e
                   | Inr scaled \<Rightarrow>
                       (case where_lt (eps self) delta_in gi scaled of
                          Inl e \<Rightarrow> Inl e
                        | Inr g \<Rightarrow> Inr [g]))
              | _ \<Rightarrow> Inl IndexError))))
      | _ \<Rightarrow> Inl AttributeError)"

text \<open>
  For the statements: the activation of shape \<open>(k, d)\<close> with the element \<open>f i j\<close> in row
  \<open>i\<close> at place \<open>j\<close>; the difference between the input-side and the baseline-side chunk
  of an activation of \<open>2 * n\<close> rows, as row \<open>i\<close> of the whole batch sees it; and the
  gradient that the rescale rule prescribes.
\<close>

definition rect :: "nat \<Rightarrow> nat \<Rightarrow> activation \<Rightarrow> bool" where
  "rect k d a \<longleftrightarrow> length a = k \<and> list_all (\<lambda>r. length r = d) a"

definition tab2 :: "nat \<Rightarrow> nat \<Rightarrow> (nat \<Rightarrow> nat \<Rightarrow> real) \<Rightarrow> activation" where
  "tab2 k d f = map (\<lambda>i. map (f i) [0..<d]) [0..<k]"

definition delta_at :: "nat \<Rightarrow> activation \<Rightarrow> nat \<Rightarrow> nat \<Rightarrow> real" where
  "delta_at n t i j = t ! (i mod n) ! j - t ! (n + i mod n) ! j"

definition rescale ::
  "real \<Rightarrow> nat \<Rightarrow> activation \<Rightarrow> activation \<Rightarrow> activation \<Rightarrow> activation \<Rightarrow> nat \<Rightarrow> nat \<Rightarrow> real" where
  "rescale e n inp out gi go i j =
     (if \<bar>delta_at n inp i j\<bar> < e then gi ! i ! j
      else go ! i ! j * (delta_at n out i j / delta_at n inp i j))"

subsection \<open>The forward pass under the hooks\<close>

definition has_hook :: "hook \<Rightarrow> (nat \<times> hook) list \<Rightarrow> bool" where
  "has_hook h tbl \<longleftrightarrow> list_ex (\<lambda>e. snd e = h) tbl"

text \<open>
  A module is entered or returns: \<^verbatim>\<open>torch\<close> calls the hooks in the module's table. Only
  the engine's own hooks are followed.
\<close>

definition fire :: "event \<Rightarrow> torch_state \<Rightarrow> py_error + torch_state" where
  "fire ev st =
     (case ev of
        PreForward a inputs \<Rightarrow>
          (if has_hook EngineForwardPreHook (forward_pre_hooks (modules st a))
           then (case forward_pre_hook (modules st a) inputs of
                   Inl e \<Rightarrow> Inl e
                 | Inr ms \<Rightarrow> Inr (st\<lparr>modules := (modules st)(a := ms)\<rparr>))
           else Inr st)
      | PostForward a inputs outputs \<Rightarrow>
          (if has_hook EngineForwardHook (forward_hooks (modules st a))
           then (case forward_hook (modules st a) inputs outputs of
                   Inl e \<Rightarrow> Inl e
                 | Inr ms \<Rightarrow> Inr (st\<lparr>modules := (modules st)(a := ms)\<rparr>))
           else Inr st))"

text \<open>The calls of one pass; an exception in a hook ends the pass.\<close>

fun fire_all :: "event list \<Rightarrow> torch_state \<Rightarrow> py_error option \<times> torch_state" where
  "fire_all [] st = (None, st)"
| "fire_all (ev # evs) st =
     (case fire ev st of Inl e \<Rightarrow> (Some e, st) | Inr st' \<Rightarrow> fire_all evs st')"

subsection \<open>The convergence check\<close>

text \<open>\<^verbatim>\<open>outputs[:, 0]\<close>\<close>

definition column0 :: "activation \<Rightarrow> py_error + real list" where
  "column0 outputs =
     (if list_ex (\<lambda>r. r = []) outputs then Inl IndexError else Inr (map hd outputs))"

text \<open>An elementwise operation on vectors, with the broadcasting of a vector of one element.\<close>

definition broadcast1 ::
  "(real \<Rightarrow> real \<Rightarrow> real) \<Rightarrow> real list \<Rightarrow> real list \<Rightarrow> py_error + real list" where
  "broadcast1 f a b =
     (if length a = length b then Inr (map2 f a b)
      else if length b = 1 then Inr (map (\<lambda>x. f x (hd b)) a)
      else if length a = 1 then Inr (map (\<lambda>y. f (hd a) y) b)
      else Inl RuntimeError)"

definition sub_chunks1 :: "real list list \<Rightarrow> py_error + real list" where
  "sub_chunks1 cs = (case cs of [a, b] \<Rightarrow> broadcast1 (-) a b | _ \<Rightarrow> Inl TypeError)"

text \<open>\<^verbatim>\<open>torch.sum(t, dim=(1, 2))\<close>\<close>

definition sum_dims12 :: "tensor \<Rightarrow> real list" where
  "sum_dims12 t = map (\<lambda>s. sum_list (map sum_list s)) t"

definition convergence_deltas ::
  "tensor \<Rightarrow> tensor \<Rightarrow> activation \<Rightarrow> tensor \<Rightarrow> py_error + real list" where
  "convergence_deltas inputs baselines outputs gradients =
     (case column0 outputs of
        Inl e \<Rightarrow> Inl e
      | Inr col \<Rightarrow>
          (case sub_chunks1 (chunk col) of
             Inl e \<Rightarrow> Inl e
           | Inr output_diff \<Rightarrow>
               (let input_diff = sum_dims12 (tensor_mul (tensor_sub inputs baselines) gradients)
                in case broadcast1 (-) output_diff input_diff of
                     Inl e \<Rightarrow> Inl e
                   | Inr d \<Rightarrow> Inr (map abs d))))"

text \<open>
  The check after the backward pass: the deltas, the warning when one of them exceeds the
  threshold, the printing when \<^verbatim>\<open>verbose\<close> is set.
\<close>

definition check_convergence ::
  "DeepLiftShap \<Rightarrow> torch_state \<Rightarrow> tensor \<Rightarrow> tensor \<Rightarrow> activation \<Rightarrow> tensor \<Rightarrow>
     (py_error + tensor) \<times> torch_state" where
  "check_convergence self st inputs baselines outputs gradients =
     (case convergence_deltas inputs baselines outputs gradients of
        Inl e \<Rightarrow> (Inl e, st)
      | Inr deltas \<Rightarrow>
          (let st1 = (if list_ex (\<lambda>d. d > warning_threshold self) deltas
                      then st\<lparr>warned := warned st @ [deltas]\<rparr> else st);
               st2 = (if verbose self then st1\<lparr>printed := printed st1 @ [deltas]\<rparr> else st1)
           in (Inr gradients, st2)))"

subsection \<open>\<^verbatim>\<open>attribute\<close>\<close>

text \<open>
  The body of the \<^verbatim>\<open>try\<close> block: the hooks are registered, the two batches are
  concatenated (and every additional argument with itself), the model runs forward and
  backward, and the result is checked. The result is the exception that ended the block, or
  the gradients. An exception of the registration ends the block before the model runs.
\<close>

definition try_block ::
  "DeepLiftShap \<Rightarrow> torch_state \<Rightarrow> tensor \<Rightarrow> tensor \<Rightarrow> activation list option \<Rightarrow>
     (py_error + tensor) \<times> DeepLiftShap \<times> torch_state" where
  "try_block self st inputs baselines args =
     (case apply_fn register_hooks (tree (model self)) (self, st) of
        (Some e, self1, st1) \<Rightarrow> (Inl e, self1, st1)
      | (None, self1, st1) \<Rightarrow>
          (let inputs' = inputs @ baselines;
               args2 = map_option (map (\<lambda>arg. arg @ arg)) args;
               r = forward_backward (model self) st1 inputs' args2
           in case fire_all (calls r) st1 of
                (Some e, st2) \<Rightarrow> (Inl e, self1, st2)
              | (None, st2) \<Rightarrow>
                  (case outcome r of
                     Inl e \<Rightarrow> (Inl e, self1, st2)
                   | Inr (outputs, gradients) \<Rightarrow>
                       (case check_convergence self1 st2 inputs baselines outputs gradients of
                          (res, st3) \<Rightarrow> (res, self1, st3)))))"

text \<open>
  \<^verbatim>\<open>attribute(inputs, baselines, args)\<close>: the assertion, the \<^verbatim>\<open>try\<close> block, and the
  \<^verbatim>\<open>finally\<close> block that removes the forward handles and then the backward handles. The
  result is the exception that propagates, or the gradients returned.
\<close>

definition attribute ::
  "DeepLiftShap \<Rightarrow> torch_state \<Rightarrow> tensor \<Rightarrow> tensor \<Rightarrow> activation list option \<Rightarrow>
     (py_error + tensor) \<times> DeepLiftShap \<times> torch_state" where
  "attribute self st inputs baselines args =
     (if shape inputs \<noteq> shape baselines then (Inl AssertionError, self, st)
      else
        (case try_block self st inputs baselines args of
           (res, self1, st1) \<Rightarrow>
             (res, self1, fold remove (forward_handles self1 @ backward_handles self1) st1)))"

subsection \<open>Notions for the statements about hooks\<close>

text \<open>
  The engine holds a handle for the key \<open>i\<close> in table \<open>tbl\<close> of module \<open>a\<close>; the entries of
  a table that the engine holds no handle for (\<open>live\<close>); the engine is \<open>idle\<close> when none of
  its handles is registered any more, as after construction. In a \<open>fresh\<close> state every key in
  a table is below the counter, as it is when all keys come from \<^verbatim>\<open>RemovableHandle.next_id\<close>.
\<close>

definition handled :: "DeepLiftShap \<Rightarrow> addr \<Rightarrow> hook_table \<Rightarrow> nat \<Rightarrow> bool" where
  "handled self a tbl i \<longleftrightarrow>
     \<lparr>h_module = a, h_table = tbl, h_id = i\<rparr> \<in> set (forward_handles self @ backward_handles self)"

definition live :: "DeepLiftShap \<Rightarrow> torch_state \<Rightarrow> addr \<Rightarrow> hook_table \<Rightarrow> (nat \<times> hook) list" where
  "live self st a tbl = filter (\<lambda>e. \<not> handled self a tbl (fst e)) (hooks_of tbl (modules st a))"

definition idle :: "DeepLiftShap \<Rightarrow> torch_state \<Rightarrow> bool" where
  "idle self st \<longleftrightarrow> (\<forall>a tbl. live self st a tbl = hooks_of tbl (modules st a))"

definition fresh :: "torch_state \<Rightarrow> bool" where
  "fresh st \<longleftrightarrow> (\<forall>a tbl. \<forall>e \<in> set (hooks_of tbl (modules st a)). fst e < next_id st)"

definition hooks_inv ::
  "(addr \<Rightarrow> hook_table \<Rightarrow> (nat \<times> hook) list) \<Rightarrow> DeepLiftShap \<times> torch_state \<Rightarrow> bool" where
  "hooks_inv L s \<longleftrightarrow> fresh (snd s) \<and> (\<forall>a tbl. live (fst s) (snd s) a tbl = L a tbl)"

text \<open>What registering hooks leaves alone.\<close>

definition same_config :: "DeepLiftShap \<times> torch_state \<Rightarrow> DeepLiftShap \<times> torch_state \<Rightarrow> bool" where
  "same_config s0 s \<longleftrightarrow>
     model (fst s) = model (fst s0) \<and> ignore_layers (fst s) = ignore_layers (fst s0) \<and>
     eps (fst s) = eps (fst s0) \<and> warning_threshold (fst s) = warning_threshold (fst s0) \<and>
     verbose (fst s) = verbose (fst s0) \<and>
     warned (snd s) = warned (snd s0) \<and> printed (snd s) = printed (snd s0) \<and>
     next_id (snd s0) \<le> next_id (snd s) \<and>
     (\<forall>a. module_input (modules (snd s) a) = module_input (modules (snd s0) a) \<and>
          module_output (modules (snd s) a) = module_output (modules (snd s0) a))"

text \<open>
  The registration of the hooks is blocked for a model in a state when some module of the
  model passes \<^verbatim>\<open>_can_register_hook\<close> and is marked as holding backward hooks of the
  old kind. While hooks are registered without an exception, every module is left as it was
  in the state \<open>st0\<close> at the start, or was not marked so and is now marked as holding full
  backward hooks, and the latter are the modules the engine holds handles for
  (\<open>marks_inv\<close>).
\<close>

definition blocked :: "layer_class list \<Rightarrow> torch_state \<Rightarrow> module_tree \<Rightarrow> bool" where
  "blocked ignore st t \<longleftrightarrow>
     list_ex (\<lambda>m. isinstance m ignore \<and> backward_hooks (modules st (ident m)) = [] \<and>
                  is_full_backward_hook (modules st (ident m)) = Some False)
       (named_modules t)"

definition marks_inv :: "layer_class list \<Rightarrow> torch_state \<Rightarrow> DeepLiftShap \<times> torch_state \<Rightarrow> bool" where
  "marks_inv ignore st0 s \<longleftrightarrow>
     ignore_layers (fst s) = ignore \<and>
     (\<forall>a. modules (snd s) a = modules st0 a \<or>
          (is_full_backward_hook (modules st0 a) \<noteq> Some False \<and>
           is_full_backward_hook (modules (snd s) a) = Some True)) \<and>
     (\<forall>h \<in> set (forward_handles (fst s) @ backward_handles (fst s)).
          is_full_backward_hook (modules (snd s) (h_module h)) = Some True)"

text \<open>
  The value that the engine's forward hooks leave in \<^verbatim>\<open>module.input\<close> and
  \<^verbatim>\<open>module.output\<close> of module \<open>a\<close> after the calls \<open>evs\<close>: the first input of the last
  entry into \<open>a\<close> and the output of the last return from \<open>a\<close>, or the old value when there is
  none.
\<close>

fun last_input :: "addr \<Rightarrow> event list \<Rightarrow> activation option \<Rightarrow> activation option" where
  "last_input a [] old = old"
| "last_input a (PreForward b inputs # evs) old =
     last_input a evs (if b = a then (case inputs of [] \<Rightarrow> old | x # _ \<Rightarrow> Some x) else old)"
| "last_input a (PostForward b inputs outputs # evs) old = last_input a evs old"

fun last_output :: "addr \<Rightarrow> event list \<Rightarrow> activation option \<Rightarrow> activation option" where
  "last_output a [] old = old"
| "last_output a (PreForward b inputs # evs) old = last_output a evs old"
| "last_output a (PostForward b inputs outputs # evs) old =
     last_output a evs (if b = a then Some outputs else old)"

section \<open>Example models\<close>

text \<open>
  A state in which no module has a hook or a captured tensor; the engine with the default
  parameters for a model; and three models for the examples below. \<open>failing_model\<close> and
  \<open>backward_failing_model\<close> are a linear layer followed by a rectifier in a container:
  the first raises in the linear layer during the forward pass, the second completes the
  forward pass and raises in the backward pass. \<open>rectifier_model\<close> is the same
  network with the weight \<open>1\<close>, on the example \<open>1\<close> and the baseline \<open>0\<close>, and its pass
  returns; in \<open>legacy_state\<close> its rectifier once had a backward hook of the old kind, which
  has been removed. \<open>square_model\<close> is a single custom
  module that squares the first channel, a nonlinearity the engine does not hook: for the
  example \<open>(1, 0, 0, 0)\<close> and the baseline \<open>(0, 1, 0, 0)\<close> its pass returns the outputs
  \<open>1\<close> and \<open>0\<close> and the gradient \<open>(2, 0, 0, 0)\<close>.
\<close>

definition no_hooks :: module_state where
  "no_hooks = \<lparr>forward_hooks = [], forward_pre_hooks = [], backward_hooks = [],
                is_full_backward_hook = None, module_input = None, module_output = None\<rparr>"

definition initial_state :: torch_state where
  "initial_state = \<lparr>modules = (\<lambda>_. no_hooks), next_id = 0, warned = [], printed = []\<rparr>"

definition relu_net :: module_tree where
  "relu_net = Node 0 Sequential [Node 1 Linear [], Node 2 ReLU []]"

definition failing_model :: nn_model where
  "failing_model =
     \<lparr>tree = relu_net,
      forward_backward = (\<lambda>st x args.
        \<lparr>calls = [PreForward 0 [[[1], [0]]], PreForward 1 [[[1], [0]]]],
         outcome = Inl RuntimeError\<rparr>)\<rparr>"

definition backward_failing_model :: nn_model where
  "backward_failing_model =
     \<lparr>tree = relu_net,
      forward_backward = (\<lambda>st x args.
        \<lparr>calls = [PreForward 0 [[[1], [0]]], PreForward 1 [[[1], [0]]],
                  PostForward 1 [[[1], [0]]] [[-2], [0]], PreForward 2 [[[-2], [0]]],
                  PostForward 2 [[[-2], [0]]] [[0], [0]], PostForward 0 [[[1], [0]]] [[0], [0]]],
         outcome = Inl RuntimeError\<rparr>)\<rparr>"

definition rectifier_model :: nn_model where
  "rectifier_model =
     \<lparr>tree = relu_net,
      forward_backward = (\<lambda>st x args.
        \<lparr>calls = [PreForward 0 [[[1], [0]]], PreForward 1 [[[1], [0]]],
                  PostForward 1 [[[1], [0]]] [[1], [0]], PreForward 2 [[[1], [0]]],
                  PostForward 2 [[[1], [0]]] [[1], [0]], PostForward 0 [[[1], [0]]] [[1], [0]]],
         outcome = Inr ([[1], [0]], [[[1]]])\<rparr>)\<rparr>"

definition legacy_state :: torch_state where
  "legacy_state =
     initial_state\<lparr>modules := (\<lambda>_. no_hooks)(2 := no_hooks\<lparr>is_full_backward_hook := Some False\<rparr>)\<rparr>"

definition square_model :: nn_model where
  "square_model =
     \<lparr>tree = Node 0 Module [],
      forward_backward = (\<lambda>st x args.
        \<lparr>calls = [PreForward 0 [[[1, 0, 0, 0], [0, 1, 0, 0]]],
                  PostForward 0 [[[1, 0, 0, 0], [0, 1, 0, 0]]] [[1], [0]]],
         outcome = Inr ([[1], [0]], [[[2], [0], [0], [0]]])\<rparr>)\<rparr>"




text \<open>
  A convolution followed by a pooling layer of the class \<open>c\<close>, in nested containers.
  Constructing an engine runs no pass, so the pass of this model is immaterial.
\<close>

definition pooling_model :: "layer_class \<Rightarrow> nn_model" where
  "pooling_model c =
     \<lparr>tree = Node 0 Sequential [Node 1 Conv1d [], Node 2 Sequential [Node 3 c []]],
      forward_backward = (\<lambda>st x args. \<lparr>calls = [], outcome = Inl RuntimeError\<rparr>)\<rparr>"

definition engine_for :: "nn_model \<Rightarrow> DeepLiftShap" where
  "engine_for mdl = \<lparr>model = mdl, ignore_layers = [ReLU], eps = 1 / 1000000,
     warning_threshold = 1 / 1000, verbose = False, forward_handles = [], backward_handles = []\<rparr>"

section \<open>The batched driver\<close>

text \<open>
  \<^verbatim>\<open>random_state\<close> is \<^verbatim>\<open>None\<close>, an integer, or a \<^verbatim>\<open>numpy.random.RandomState\<close>.
  \<^verbatim>\<open>references\<close> is a tensor of shape \<open>(len(X), n_shuffles, alphabet, length)\<close>, here
  the list of the reference tensors of the examples, or a function. The function is
  external: it is called with a batch, the number \<open>n\<close> of references wanted for every
  example and the keyword \<^verbatim>\<open>random_state\<close> (\<open>None\<close> when the call leaves it out), and it
  returns a tensor of shape \<open>(batch, n, alphabet, length)\<close> or raises. What it returns
  without a seed depends on a source of randomness, the state \<open>'g\<close> that it reads and
  changes.
\<close>

datatype random_state = NoSeed | IntSeed int | RandomStateObject

type_synonym 'g generator = "tensor \<Rightarrow> nat \<Rightarrow> int option \<Rightarrow> 'g \<Rightarrow> (py_error + tensor list) \<times> 'g"

datatype 'g references = RefTensor "tensor list" | RefFunc "'g generator"

text \<open>
  \<^verbatim>\<open>t[idx]\<close> for a list of indices, as in \<^verbatim>\<open>X[Xi]\<close> and \<^verbatim>\<open>a[Xi]\<close>.
\<close>

definition rows_at :: "'a list \<Rightarrow> nat list \<Rightarrow> py_error + 'a list" where
  "rows_at t idx =
     (if list_all (\<lambda>k. k < length t) idx then Inr (map (\<lambda>k. t ! k) idx) else Inl IndexError)"

text \<open>
  \<^verbatim>\<open>tuple([a[Xi] for a in args])\<close>
\<close>

fun args_at :: "activation list \<Rightarrow> nat list \<Rightarrow> py_error + activation list" where
  "args_at [] idx = Inr []"
| "args_at (a # as) idx =
     (case rows_at a idx of
        Inl e \<Rightarrow> Inl e
      | Inr a' \<Rightarrow> (case args_at as idx of Inl e \<Rightarrow> Inl e | Inr as' \<Rightarrow> Inr (a' # as')))"

text \<open>
  \<^verbatim>\<open>references[Xi, rj]\<close>
\<close>

definition pairs_at :: "tensor list \<Rightarrow> nat list \<Rightarrow> nat list \<Rightarrow> py_error + tensor" where
  "pairs_at refs Xi rj =
     (if list_all (\<lambda>(k, j). k < length refs \<and> j < length (refs ! k)) (zip Xi rj)
      then Inr (map (\<lambda>(k, j). refs ! k ! j) (zip Xi rj))
      else Inl IndexError)"

text \<open>
  \<^verbatim>\<open>out[:, 0]\<close> for the tensor that the reference function returns.
\<close>

definition first_refs :: "tensor list \<Rightarrow> py_error + tensor" where
  "first_refs out = (if list_ex (\<lambda>t. t = []) out then Inl IndexError else Inr (map hd out))"

text \<open>
  \<^verbatim>\<open>torch.cat(ts)\<close> along the first axis: the list must not be empty and the tensors
  must agree in the other axes.
\<close>

definition cat :: "tensor list \<Rightarrow> py_error + tensor" where
  "cat ts =
     (case ts of
        [] \<Rightarrow> Inl RuntimeError
      | t # _ \<Rightarrow>
          (if list_all (\<lambda>u. snd (shape u) = snd (shape t)) ts then Inr (concat ts)
           else Inl RuntimeError))"

text \<open>
  The list comprehension of the seeded branch: for the \<open>j\<close>-th example of the batch one
  call of the reference function on that example alone, with \<open>n = 1\<close> and the seed
  \<^verbatim>\<open>random_state + rj[j]\<close>.
\<close>

fun seeded_refs ::
  "'g generator \<Rightarrow> int \<Rightarrow> tensor \<Rightarrow> nat list \<Rightarrow> 'g \<Rightarrow> (py_error + tensor list) \<times> 'g" where
  "seeded_refs f s [] rj g = (Inr [], g)"
| "seeded_refs f s (x # xs) rj g =
     (case rj of
        [] \<Rightarrow> (Inl IndexError, g)
      | j # js \<Rightarrow>
          (case f [x] 1 (Some (s + int j)) g of
             (Inl e, g1) \<Rightarrow> (Inl e, g1)
           | (Inr out, g1) \<Rightarrow>
               (case first_refs out of
                  Inl e \<Rightarrow> (Inl e, g1)
                | Inr t \<Rightarrow>
                    (case seeded_refs f s xs js g1 of
                       (Inl e, g2) \<Rightarrow> (Inl e, g2)
                     | (Inr ts, g2) \<Rightarrow> (Inr (t # ts), g2)))))"

text \<open>
  The references of a batch. A \<^verbatim>\<open>RandomState\<close> object cannot be added to an integer,
  so with a function it ends in a \<^verbatim>\<open>TypeError\<close>.
\<close>

definition make_references ::
  "'g references \<Rightarrow> random_state \<Rightarrow> tensor \<Rightarrow> nat list \<Rightarrow> nat list \<Rightarrow> 'g \<Rightarrow> (py_error + tensor) \<times> 'g" where
  "make_references references random_state X' Xi rj g =
     (case references of
        RefTensor R \<Rightarrow> (pairs_at R Xi rj, g)
      | RefFunc f \<Rightarrow>
          (case random_state of
             NoSeed \<Rightarrow>
               (case f X' 1 None g of
                  (Inl e, g1) \<Rightarrow> (Inl e, g1)
                | (Inr out, g1) \<Rightarrow> (first_refs out, g1))
           | IntSeed s \<Rightarrow>
               (case seeded_refs f s X' rj g of
                  (Inl e, g1) \<Rightarrow> (Inl e, g1)
                | (Inr ts, g1) \<Rightarrow> (cat ts, g1))
           | RandomStateObject \<Rightarrow> (if X' = [] then Inl RuntimeError else Inl TypeError, g)))"

text \<open>
  \<^verbatim>\<open>torch.stack(ss)\<close> of a non-empty list of matrices of one shape, and
  \<^verbatim>\<open>torch.stack(ss).mean(dim=0)\<close>.
\<close>

definition mean_seq :: "seq list \<Rightarrow> seq" where
  "mean_seq ss =
     map (\<lambda>c. map (\<lambda>j. sum_list (map (\<lambda>t. t ! c ! j) ss) / real (length ss))
                 [0..<length (hd ss ! c)])
       [0..<length (hd ss)]"

definition stack :: "seq list \<Rightarrow> py_error + tensor" where
  "stack ss =
     (case ss of
        [] \<Rightarrow> Inl RuntimeError
      | t # _ \<Rightarrow>
          (if list_all (\<lambda>u. map length u = map length t) ss then Inr ss else Inl RuntimeError))"

definition stack_mean :: "seq list \<Rightarrow> py_error + seq" where
  "stack_mean ss = (case stack ss of Inl e \<Rightarrow> Inl e | Inr t \<Rightarrow> Inr (mean_seq t))"

text \<open>
  The loop \<^verbatim>\<open>while len(attr_) >= n_shuffles\<close> on \<open>z\<close>, \<^verbatim>\<open>attr_\<close> and
  \<^verbatim>\<open>attributions\<close>. It is only reached with a positive \<open>n_shuffles\<close>; with zero the
  stacking of an empty list would raise.
\<close>

function average_refs ::
  "nat \<Rightarrow> bool \<Rightarrow> tensor \<Rightarrow> nat \<times> seq list \<times> seq list \<Rightarrow> py_error + nat \<times> seq list \<times> seq list" where
  "average_refs ns hypothetical X (z, attr', attributions) =
     (if ns \<le> length attr' then
        (if ns = 0 then Inl RuntimeError
         else
           (case stack_mean (take ns attr') of
              Inl e \<Rightarrow> Inl e
            | Inr attr_avg \<Rightarrow>
                (case (if hypothetical then Inr attr_avg
                       else if z < length X then elementwise (*) attr_avg (X ! z)
                       else Inl IndexError) of
                   Inl e \<Rightarrow> Inl e
                 | Inr attr_avg1 \<Rightarrow>
                     average_refs ns hypothetical X
                       (Suc z, drop ns attr', attributions @ [attr_avg1]))))
      else Inr (z, attr', attributions))"
  by pat_completeness auto
termination
  by (relation "measure (\<lambda>(ns, h, X, z, a, r). length a)") auto

declare average_refs.simps [simp del]

text \<open>
  The variables of the loop over the pairs, the state of the modules and of the randomness.
\<close>

record 'g loop_state =
  Xi :: "nat list"
  rj :: "nat list"
  attr' :: "seq list"
  z :: nat
  attributions :: "seq list"
  references' :: "seq list"
  torch :: torch_state
  rng :: 'g

text \<open>
  \<^verbatim>\<open>hypothetical_attributions(...)[0]\<close>
\<close>

definition first_tensor :: "py_object \<Rightarrow> py_error + tensor" where
  "first_tensor v =
     (case v of
        Tuple (Tensor d t # _) \<Rightarrow> Inr t
      | Tuple [] \<Rightarrow> Inl IndexError
      | _ \<Rightarrow> Inl TypeError)"

text \<open>
  The body of \<^verbatim>\<open>if len(Xi) == batch_size or i == (n-1)\<close>, in its four stages: the
  examples, additional arguments and references of the batch are put together
  (\<open>batch_inputs\<close>); a new engine attributes them (\<open>explain_batch\<close>); the projector turns
  the gradients into hypothetical attributions (\<open>project_batch\<close>); complete sets of
  \<open>n_shuffles\<close> attributions are averaged, and the batch is cleared. Moving tensors to the
  device and marking them as requiring gradients changes no value; the examples and the
  references are floating-point tensors, the only ones that \<^verbatim>\<open>requires_grad_\<close>
  accepts. The parameter \<open>threshold\<close> is \<^verbatim>\<open>warning_threshold\<close>.
\<close>

definition batch_inputs ::
  "tensor \<Rightarrow> activation list option \<Rightarrow> 'g references \<Rightarrow> random_state \<Rightarrow> 'g loop_state \<Rightarrow>
   py_error + tensor \<times> activation list option \<times> tensor \<times> 'g" where
  "batch_inputs X args references random_state s =
     (case rows_at X (Xi s) of
        Inl e \<Rightarrow> Inl e
      | Inr X' \<Rightarrow>
          (case (case args of
                   None \<Rightarrow> Inr None
                 | Some as \<Rightarrow>
                     (case args_at as (Xi s) of Inl e \<Rightarrow> Inl e | Inr as' \<Rightarrow> Inr (Some as'))) of
             Inl e \<Rightarrow> Inl e
           | Inr args' \<Rightarrow>
               (case make_references references random_state X' (Xi s) (rj s) (rng s) of
                  (Inl e, g1) \<Rightarrow> Inl e
                | (Inr refs', g1) \<Rightarrow> Inr (X', args', refs', g1))))"

definition explain_batch ::
  "nn_model \<Rightarrow> real \<Rightarrow> bool \<Rightarrow> torch_state \<Rightarrow> tensor \<Rightarrow> tensor \<Rightarrow> activation list option \<Rightarrow>
   py_error + tensor \<times> torch_state" where
  "explain_batch mdl threshold print_convergence_deltas st X' refs' args' =
     (case DeepLiftShap_init mdl [ReLU] (1 / 1000000) threshold print_convergence_deltas of
        Inl e \<Rightarrow> Inl e
      | Inr engine \<Rightarrow>
          (case attribute engine st X' refs' args' of
             (Inl e, engine1, st1) \<Rightarrow> Inl e
           | (Inr gradients, engine1, st1) \<Rightarrow> Inr (gradients, st1)))"

definition project_batch :: "tensor \<Rightarrow> tensor \<Rightarrow> tensor \<Rightarrow> py_error + tensor" where
  "project_batch gradients X' refs' =
     (case hypothetical_attributions (Tuple [Tensor Floating gradients])
             (Tuple [Tensor Floating X']) (Tuple [Tensor Floating refs']) of
        Inl e \<Rightarrow> Inl e
      | Inr res \<Rightarrow> first_tensor res)"

definition run_batch ::
  "nn_model \<Rightarrow> tensor \<Rightarrow> activation list option \<Rightarrow> 'g references \<Rightarrow> nat \<Rightarrow> bool \<Rightarrow> bool \<Rightarrow>
   real \<Rightarrow> bool \<Rightarrow> random_state \<Rightarrow> 'g loop_state \<Rightarrow> py_error + 'g loop_state" where
  "run_batch mdl X args references n_shuffles return_references hypothetical
     threshold print_convergence_deltas random_state s =
     (case batch_inputs X args references random_state s of
        Inl e \<Rightarrow> Inl e
      | Inr (X', args', refs', g1) \<Rightarrow>
          (case explain_batch mdl threshold print_convergence_deltas (torch s) X' refs' args' of
             Inl e \<Rightarrow> Inl e
           | Inr (gradients, st1) \<Rightarrow>
               (case project_batch gradients X' refs' of
                  Inl e \<Rightarrow> Inl e
                | Inr attr \<Rightarrow>
                    (case average_refs n_shuffles hypothetical X
                            (z s, attr' s @ attr, attributions s) of
                       Inl e \<Rightarrow> Inl e
                     | Inr (z1, attr1, attributions1) \<Rightarrow>
                         Inr (s\<lparr>Xi := [], rj := [], attr' := attr1, z := z1,
                                attributions := attributions1,
                                references' := (if return_references then references' s @ refs'
                                                else references' s),
                                torch := st1, rng := g1\<rparr>)))))"

text \<open>
  The body of \<^verbatim>\<open>for i in trange(n)\<close>.
\<close>

definition loop_body ::
  "nn_model \<Rightarrow> tensor \<Rightarrow> activation list option \<Rightarrow> 'g references \<Rightarrow> int \<Rightarrow> int \<Rightarrow> bool \<Rightarrow> bool \<Rightarrow>
   real \<Rightarrow> bool \<Rightarrow> random_state \<Rightarrow> int \<Rightarrow> nat \<Rightarrow> 'g loop_state \<Rightarrow> py_error + 'g loop_state" where
  "loop_body mdl X args references n_shuffles batch_size return_references hypothetical
     threshold print_convergence_deltas random_state n i s =
     (let s1 = s\<lparr>Xi := Xi s @ [nat (int i div n_shuffles)],
                   rj := rj s @ [nat (int i mod n_shuffles)]\<rparr>
      in if int (length (Xi s1)) = batch_size \<or> int i = n - 1
         then run_batch mdl X args references (nat n_shuffles) return_references hypothetical
                threshold print_convergence_deltas random_state s1
         else Inr s1)"

fun for_loop :: "(nat \<Rightarrow> 's \<Rightarrow> py_error + 's) \<Rightarrow> nat list \<Rightarrow> 's \<Rightarrow> py_error + 's" where
  "for_loop body [] s = Inr s"
| "for_loop body (i # is) s =
     (case body i s of Inl e \<Rightarrow> Inl e | Inr s1 \<Rightarrow> for_loop body is s1)"

text \<open>
  \<^verbatim>\<open>torch.cat(references_).reshape(X.shape[0], n_shuffles, *X.shape[1:])\<close> for
  matrices of the shape of the examples: consecutive groups of \<open>n_shuffles\<close> references.
\<close>

definition regroup :: "nat \<Rightarrow> nat \<Rightarrow> nat \<times> nat \<Rightarrow> seq list \<Rightarrow> py_error + tensor list" where
  "regroup n_examples n_shuffles sh refs =
     (if refs \<noteq> [] \<and> length refs = n_examples * n_shuffles \<and>
         list_all (\<lambda>r. snd (shape [r]) = sh) refs
      then Inr (map (\<lambda>k. take n_shuffles (drop (k * n_shuffles) refs)) [0..<n_examples])
      else Inl RuntimeError)"

text \<open>
  \<^verbatim>\<open>deep_lift_shap\<close>. The result is the exception, or the attributions and, if asked
  for, the references. The progress bar and the device are left out, and \<open>n_shuffles0\<close> is
  the argument \<^verbatim>\<open>n_shuffles\<close>, which a reference tensor overrides.
\<close>

definition deep_lift_shap ::
  "nn_model \<Rightarrow> torch_state \<Rightarrow> 'g \<Rightarrow> tensor \<Rightarrow> activation list option \<Rightarrow> 'g references \<Rightarrow> int \<Rightarrow>
   int \<Rightarrow> bool \<Rightarrow> bool \<Rightarrow> real \<Rightarrow> bool \<Rightarrow> random_state \<Rightarrow>
   py_error + tensor \<times> tensor list option" where
  "deep_lift_shap mdl st g X args references n_shuffles0 batch_size return_references hypothetical
     threshold print_convergence_deltas random_state =
     (let n_shuffles =
            (case references of
               RefTensor R \<Rightarrow> int (case R of [] \<Rightarrow> 0 | t # _ \<Rightarrow> length t)
             | RefFunc f \<Rightarrow> n_shuffles0);
          n = int (length X) * n_shuffles
      in case for_loop
                (loop_body mdl X args references n_shuffles batch_size return_references
                   hypothetical threshold print_convergence_deltas random_state n)
                [0..<nat n]
                \<lparr>Xi = [], rj = [], attr' = [], z = 0, attributions = [], references' = [],
                 torch = st, rng = g\<rparr> of
           Inl e \<Rightarrow> Inl e
         | Inr s \<Rightarrow>
             (case stack (attributions s) of
                Inl e \<Rightarrow> Inl e
              | Inr result \<Rightarrow>
                  (if return_references
                   then (case regroup (length X) (nat n_shuffles) (snd (shape X)) (references' s) of
                           Inl e \<Rightarrow> Inl e
                         | Inr refs \<Rightarrow> Inr (result, Some refs))
                   else Inr (result, None))))"

text \<open>The two index lists of the batch under construction have one length.\<close>

definition batch_aligned :: "'g loop_state \<Rightarrow> bool" where
  "batch_aligned s \<longleftrightarrow> length (Xi s) = length (rj s)"

text \<open>
  For the examples: a model that calls no module and whose gradient for every pair of an
  example and its baseline depends on that pair (and its additional arguments) alone; a
  reference function that adds the seed to every element, or a number drawn from the state
  of randomness when there is no seed; and a gradient.
\<close>

definition pairwise_model ::
  "module_tree \<Rightarrow> (seq \<Rightarrow> seq \<Rightarrow> real list list option \<Rightarrow> seq) \<Rightarrow> nn_model" where
  "pairwise_model t grad_of =
     \<lparr>tree = t,
      forward_backward = (\<lambda>st inp ao.
        \<lparr>calls = [],
         outcome = Inr (map (\<lambda>s. [0]) inp,
           map (\<lambda>k. grad_of (inp ! k) (inp ! (length inp div 2 + k))
                        (map_option (map (\<lambda>a. a ! k)) ao))
             [0..<length inp div 2])\<rparr>)\<rparr>"

definition shift_generator :: "int generator" where
  "shift_generator X' n seed g =
     (Inr (map (\<lambda>x. replicate n
              (map (map (\<lambda>v. v + real_of_int (case seed of None \<Rightarrow> g | Some k \<Rightarrow> k))) x)) X'),
      g + 1)"

definition toy_grad :: "seq \<Rightarrow> seq \<Rightarrow> real list list option \<Rightarrow> seq" where
  "toy_grad x r a = map2 (map2 (\<lambda>u v. 2 * u + v)) x r"

subsection \<open>Notions for the statements about the driver\<close>

text \<open>
  The reference function is seeded by \<open>\<rho>\<close> when, called with one example, \<open>n = 1\<close> and a
  seed, it returns the one reference \<open>\<rho> x k\<close> that the example and the seed determine,
  whatever the state of randomness.
\<close>

definition seeded_by :: "'g generator \<Rightarrow> (seq \<Rightarrow> int \<Rightarrow> seq) \<Rightarrow> bool" where
  "seeded_by f \<rho> \<longleftrightarrow> (\<forall>x k g. fst (f [x] 1 (Some k) g) = Inr [[\<rho> x k]])"

text \<open>
  A call of a module accepts the engine's hooks when it has a positional input. A model is
  batchwise with the gradient \<open>grad_of\<close> when, on every combined batch and in every state of
  the modules, its pass calls modules that accept the hooks, returns one output row with at
  least one channel for every row of the batch, and returns for the \<open>k\<close>-th example the
  gradient \<open>grad_of\<close> of that example, its baseline and its additional arguments alone.
\<close>

definition accepts_hooks :: "event \<Rightarrow> bool" where
  "accepts_hooks ev =
     (case ev of PreForward a inputs \<Rightarrow> inputs \<noteq> [] | PostForward a inputs outputs \<Rightarrow> True)"

definition batchwise ::
  "nn_model \<Rightarrow> (seq \<Rightarrow> seq \<Rightarrow> real list list option \<Rightarrow> seq) \<Rightarrow> bool" where
  "batchwise mdl grad_of \<longleftrightarrow>
     (\<forall>st xs rs ao. length xs = length rs \<longrightarrow>
        list_all accepts_hooks (calls (forward_backward mdl st (xs @ rs) ao)) \<and>
        (\<exists>outs. length outs = 2 * length xs \<and> list_all (\<lambda>row. row \<noteq> []) outs \<and>
           outcome (forward_backward mdl st (xs @ rs) ao) =
             Inr (outs, map (\<lambda>k. grad_of (xs ! k) (rs ! k) (map_option (map (\<lambda>a. a ! k)) ao))
                          [0..<length xs])))"

text \<open>
  The projector on one example: its slice \<open>c\<close> is the contribution of becoming character
  \<open>c\<close>.
\<close>

definition proj_seq :: "nat \<Rightarrow> nat \<Rightarrow> seq \<Rightarrow> seq \<Rightarrow> seq" where
  "proj_seq a l r m = map (\<lambda>c. map (\<lambda>j. projection [r] [m] a 0 c j) [0..<l]) [0..<a]"

text \<open>
  Pair \<open>i\<close> of the loop is example \<open>i div n_shuffles\<close> with reference index
  \<open>i mod n_shuffles\<close>: its reference under the seed \<^verbatim>\<open>random_state + reference_index\<close>,
  the additional arguments of its example, and its hypothetical attribution.
\<close>

definition pair_ref :: "(seq \<Rightarrow> int \<Rightarrow> seq) \<Rightarrow> int \<Rightarrow> tensor \<Rightarrow> nat \<Rightarrow> nat \<Rightarrow> seq" where
  "pair_ref \<rho> s0 X ns i = \<rho> (X ! (i div ns)) (s0 + int (i mod ns))"

definition pair_args :: "activation list option \<Rightarrow> nat \<Rightarrow> real list list option" where
  "pair_args args e = map_option (map (\<lambda>a. a ! e)) args"

definition pair_attr ::
  "(seq \<Rightarrow> seq \<Rightarrow> real list list option \<Rightarrow> seq) \<Rightarrow> (seq \<Rightarrow> int \<Rightarrow> seq) \<Rightarrow> int \<Rightarrow> tensor \<Rightarrow>
   activation list option \<Rightarrow> nat \<Rightarrow> nat \<Rightarrow> nat \<Rightarrow> nat \<Rightarrow> seq" where
  "pair_attr grad_of \<rho> s0 X args ns a l i =
     proj_seq a l (pair_ref \<rho> s0 X ns i)
       (grad_of (X ! (i div ns)) (pair_ref \<rho> s0 X ns i) (pair_args args (i div ns)))"

text \<open>
  The attribution of example \<open>e\<close>: the mean of the attributions of its \<open>ns\<close> pairs,
  multiplied by the example itself unless hypothetical attributions are asked for.
\<close>

definition averaged :: "nat \<Rightarrow> bool \<Rightarrow> tensor \<Rightarrow> (nat \<Rightarrow> seq) \<Rightarrow> nat \<Rightarrow> seq" where
  "averaged ns hyp X attr e =
     (let attr_avg = mean_seq (map attr [e * ns..<e * ns + ns])
      in if hyp then attr_avg else map2 (map2 (*)) attr_avg (X ! e))"

text \<open>
  The invariant of the loop over the pairs, before pair \<open>i\<close>, when the batch under
  construction starts at pair \<open>b\<close>; and the assumptions on the collaborators in one
  predicate.
\<close>

definition pending ::
  "nat \<Rightarrow> bool \<Rightarrow> (nat \<Rightarrow> seq) \<Rightarrow> (nat \<Rightarrow> seq) \<Rightarrow> (nat \<Rightarrow> seq) \<Rightarrow> nat \<Rightarrow> nat \<Rightarrow> 'g loop_state \<Rightarrow> bool" where
  "pending ns rr attr ex ref b i s \<longleftrightarrow>
     Xi s = map (\<lambda>t. t div ns) [b..<i] \<and> rj s = map (\<lambda>t. t mod ns) [b..<i] \<and>
     z s = b div ns \<and> attr' s = map attr [b div ns * ns..<b] \<and>
     attributions s = map ex [0..<b div ns] \<and>
     references' s = (if rr then map ref [0..<b] else [])"

definition well_set ::
  "'g generator \<Rightarrow> (seq \<Rightarrow> int \<Rightarrow> seq) \<Rightarrow> nn_model \<Rightarrow> (seq \<Rightarrow> seq \<Rightarrow> real list list option \<Rightarrow> seq) \<Rightarrow>
   tensor \<Rightarrow> activation list option \<Rightarrow> nat \<Rightarrow> nat \<Rightarrow> nat \<Rightarrow> bool" where
  "well_set f \<rho> mdl grad_of X args n a l \<longleftrightarrow>
     seeded_by f \<rho> \<and> is_tensor (n, a, l) X \<and>
     (\<forall>x k. rect a l x \<longrightarrow> rect a l (\<rho> x k)) \<and>
     (\<forall>as. args = Some as \<longrightarrow> list_all (\<lambda>arg. n \<le> length arg) as) \<and>
     batchwise mdl grad_of \<and>
     \<not> list_ex (\<lambda>m. issubclass (kind m) MaxPoolNd) (named_modules (tree mdl)) \<and>
     (\<forall>x r ar. rect a l x \<longrightarrow> rect a l r \<longrightarrow> rect a l (grad_of x r ar))"

text \<open>
  The reference that \<open>shift_generator\<close> makes for a seed.
\<close>

definition shift :: "seq \<Rightarrow> int \<Rightarrow> seq" where
  "shift x k = map (map (\<lambda>v. v + real_of_int k)) x"

section \<open>Properties of the projector\<close>

lemma map2_upt:
  "map2 f (map g [0..<n]) (map h [0..<n]) = map (\<lambda>i. f (g i) (h i)) [0..<n]"
  by (rule nth_equalityI) simp_all

lemma update_upt:
  "k < a \<Longrightarrow> (map g [0..<a])[k := v] = map (\<lambda>c. if c = k then v else g c) [0..<a]"
  by (rule nth_equalityI) (auto simp: nth_list_update)

lemma map_upt_cong:
  "(\<And>i. i < n \<Longrightarrow> f i = g i) \<Longrightarrow> map f [0..<n] = map g [0..<n]"
  by simp

lemma is_tensor_tab3:
  assumes "is_tensor (n, a, l) t"
  shows "t = tab3 n a l (\<lambda>k c j. t ! k ! c ! j)"
proof -
  from assms have len: "length t = n"
    and rows: "\<And>k. k < n \<Longrightarrow> length (t ! k) = a"
    and cols: "\<And>k c. k < n \<Longrightarrow> c < a \<Longrightarrow> length (t ! k ! c) = l"
    by (auto simp: is_tensor_def list_all_length)
  have inner: "t ! k ! c = map (\<lambda>j. t ! k ! c ! j) [0..<l]" if "k < n" "c < a" for k c
    using cols [OF that] by (intro nth_equalityI) simp_all
  have mid: "t ! k = map (\<lambda>c. map (\<lambda>j. t ! k ! c ! j) [0..<l]) [0..<a]" if "k < n" for k
    using rows [OF that] inner [OF that] by (intro nth_equalityI) simp_all
  show ?thesis
    unfolding tab3_def using len mid by (intro nth_equalityI) simp_all
qed

lemma tab3_cong:
  "(\<And>k c j. k < n \<Longrightarrow> c < a \<Longrightarrow> j < l \<Longrightarrow> f k c j = g k c j) \<Longrightarrow>
   tab3 n a l f = tab3 n a l g"
  by (simp add: tab3_def)


lemma shape_tab3:
  "shape (tab3 n a l f) = (n, (if n = 0 then 0 else a), (if n = 0 \<or> a = 0 then 0 else l))"
  by (cases n; cases a) (simp_all add: shape_def tab3_def upt_conv_Cons del: upt_Suc)

lemma zeros_like_tab3: "zeros_like (tab3 n a l f) = tab3 n a l (\<lambda>_ _ _. 0)"
  by (simp add: zeros_like_def tab3_def comp_def)

lemma fill_channel_tab3:
  "c < a \<Longrightarrow> fill_channel (tab3 n a l f) c v =
     tab3 n a l (\<lambda>k c' j. if c' = c then v else f k c' j)"
  by (simp add: fill_channel_def tab3_def comp_def update_upt if_distrib cong: if_cong)

lemma tensor_sub_tab3:
  "tensor_sub (tab3 n a l f) (tab3 n a l g) = tab3 n a l (\<lambda>k c j. f k c j - g k c j)"
  by (simp add: tensor_sub_def tab3_def map2_upt)

lemma tensor_mul_tab3:
  "tensor_mul (tab3 n a l f) (tab3 n a l g) = tab3 n a l (\<lambda>k c j. f k c j * g k c j)"
  by (simp add: tensor_mul_def tab3_def map2_upt)

lemma head_length_upt:
  "(case map g [0..<a] of [] \<Rightarrow> 0 | r # _ \<Rightarrow> length r) = (if a = 0 then 0 else length (g 0))"
  by (cases a) (simp_all add: upt_conv_Cons del: upt_Suc)

lemma sum_dim1_tab3:
  "0 < a \<Longrightarrow> sum_dim1 (tab3 n a l f) = map (\<lambda>k. map (\<lambda>j. \<Sum>c<a. f k c j) [0..<l]) [0..<n]"
  by (simp add: sum_dim1_def tab3_def comp_def head_length_upt
      interv_sum_list_conv_sum_set_nat atLeast0LessThan)

lemma to_dtype_one [simp]: "to_dtype d 1 = 1"
  by (cases d) (simp_all add: to_dtype_def)

lemma to_dtype_Floating [simp]: "to_dtype Floating v = v"
  by (simp add: to_dtype_def)

lemma set_channel_tab3:
  "c < a \<Longrightarrow> set_channel d (tab3 n a l p) c (map (\<lambda>k. map (g k) [0..<l]) [0..<n]) =
     tab3 n a l (\<lambda>k c' j. if c' = c then to_dtype d (g k j) else p k c' j)"
  by (simp add: set_channel_def tab3_def map2_upt update_upt if_distrib comp_def cong: if_cong)

lemma hyp_step_tab3:
  assumes "c < a"
  shows "hyp_step d (tab3 n a l x) (tab3 n a l r) (tab3 n a l m) (tab3 n a l p) c =
         tab3 n a l (\<lambda>k c' j. if c' = c
            then to_dtype d (\<Sum>i<a. ((if i = c then 1 else 0) - r k i j) * m k i j)
            else p k c' j)"
proof -
  from assms have "0 < a" by simp
  with assms show ?thesis
    by (simp add: hyp_step_def zeros_like_tab3 fill_channel_tab3 tensor_sub_tab3
        tensor_mul_tab3 sum_dim1_tab3 set_channel_tab3)
qed

lemma foldl_hyp_step_tab3:
  "k \<le> a \<Longrightarrow>
   foldl (hyp_step d (tab3 n a l x) (tab3 n a l r) (tab3 n a l m)) (tab3 n a l (\<lambda>_ _ _. 0)) [0..<k] =
   tab3 n a l (\<lambda>i c j. if c < k
       then to_dtype d (\<Sum>i'<a. ((if i' = c then 1 else 0) - r i i' j) * m i i' j) else 0)"
proof (induction k)
  case 0
  show ?case by simp
next
  case (Suc k)
  then have "k < a" "k \<le> a" by simp_all
  have "(\<lambda>i c' j. if c' = k
            then to_dtype d (\<Sum>i'<a. ((if i' = k then 1 else 0) - r i i' j) * m i i' j)
            else if c' < k
              then to_dtype d (\<Sum>i'<a. ((if i' = c' then 1 else 0) - r i i' j) * m i i' j) else 0)
      = (\<lambda>i c j. if c < Suc k
            then to_dtype d (\<Sum>i'<a. ((if i' = c then 1 else 0) - r i i' j) * m i i' j) else 0)"
    by (intro ext) (auto simp: less_Suc_eq)
  with Suc.IH [OF \<open>k \<le> a\<close>] \<open>k < a\<close> show ?case
    by (simp add: hyp_step_tab3)
qed

lemma hypothetical_attributions_tab3:
  assumes m: "is_tensor (n, a, l) m" and x: "is_tensor (n, a, l) x" and r: "is_tensor (n, a, l) r"
  shows "hypothetical_attributions (Tuple [Tensor dm m]) (Tuple [Tensor dx x]) (Tuple [Tensor dr r]) =
           Inr (Tuple [Tensor dx (tab3 n a l (\<lambda>k c j. to_dtype dx (projection r m a k c j)))])"
    and "shape (tab3 n a l f) = shape x"
proof -
  let ?m = "\<lambda>k c j. m ! k ! c ! j" and ?x = "\<lambda>k c j. x ! k ! c ! j" and ?r = "\<lambda>k c j. r ! k ! c ! j"
  let ?p = "\<lambda>k c j. to_dtype dx (projection r m a k c j)"
  have tm: "m = tab3 n a l ?m" and tx: "x = tab3 n a l ?x" and tr: "r = tab3 n a l ?r"
    by (rule is_tensor_tab3 [OF m], rule is_tensor_tab3 [OF x], rule is_tensor_tab3 [OF r])
  have sh: "shape m = shape x" "shape r = shape x"
    by (subst tm, subst tx, simp add: shape_tab3) (subst tr, subst tx, simp add: shape_tab3)
  show "shape (tab3 n a l f) = shape x"
    by (subst tx) (simp add: shape_tab3)
  have checks: "check_input (Tuple [Tensor dm m]) (Tuple [Tensor dm m]) = Inr (dm, m)"
    "check_input (Tuple [Tensor dm m]) (Tuple [Tensor dx x]) = Inr (dx, x)"
    "check_input (Tuple [Tensor dm m]) (Tuple [Tensor dr r]) = Inr (dr, r)"
    using sh by (simp_all add: check_input_def first_shape_def)
  have "foldl (hyp_step dx x r m) (zeros_like r) [0..<fst (snd (shape x))] = tab3 n a l ?p"
  proof (cases "n = 0")
    case True
    with x r have "x = []" "r = []" by (simp_all add: is_tensor_def)
    with True show ?thesis by (simp add: shape_def zeros_like_def tab3_def)
  next
    case False
    have "shape x = (n, a, (if a = 0 then 0 else l))"
      using False by (subst tx) (simp add: shape_tab3)
    then have up: "[0..<fst (snd (shape x))] = [0..<a]" by simp
    have "foldl (hyp_step dx (tab3 n a l ?x) (tab3 n a l ?r) (tab3 n a l ?m))
            (zeros_like (tab3 n a l ?r)) [0..<a] = tab3 n a l ?p"
      unfolding zeros_like_tab3 foldl_hyp_step_tab3 [OF order_refl]
      by (rule tab3_cong) (simp add: projection_def)
    with up tm tx tr show ?thesis by simp
  qed
  with checks show "hypothetical_attributions (Tuple [Tensor dm m]) (Tuple [Tensor dx x])
      (Tuple [Tensor dr r]) =
           Inr (Tuple [Tensor dx (tab3 n a l (\<lambda>k c j. to_dtype dx (projection r m a k c j)))])"
    by (simp add: hypothetical_attributions_def)
qed



lemma projection_example:
  "tab3 1 4 1 (\<lambda>k c j. to_dtype d (projection [[[0], [1], [0], [0]]] [[[2], [-1], [0], [0]]] 4 k c j)) =
     [[[3], [0], [1], [1]]]"
  by (cases d)
     (simp_all add: tab3_def projection_def to_dtype_def upt_conv_Cons lessThan_nat_numeral
        lessThan_Suc del: upt_Suc)



section \<open>Construction fails on the max-pooling layers of one base class\<close>

lemma check_modules_iff:
  "check_modules ms = Inl (ValueError max_pool_message) \<longleftrightarrow>
     list_ex (\<lambda>m. isinstance m [MaxPoolNd]) ms"
  by (induction ms) auto

lemma check_modules_cases:
  "check_modules ms = Inl (ValueError max_pool_message) \<or> check_modules ms = Inr ()"
  by (induction ms) auto

lemma DeepLiftShap_init_eq:
  "DeepLiftShap_init mdl ignore e thr verb =
     (if list_ex (\<lambda>m. issubclass (kind m) MaxPoolNd) (named_modules (tree mdl))
      then Inl (ValueError max_pool_message)
      else Inr \<lparr> model = mdl, ignore_layers = ignore, eps = e,
                 warning_threshold = thr, verbose = verb,
                 forward_handles = [], backward_handles = [] \<rparr>)"
proof (cases "list_ex (\<lambda>m. isinstance m [MaxPoolNd]) (named_modules (tree mdl))")
  case True
  then have "check_modules (named_modules (tree mdl)) = Inl (ValueError max_pool_message)"
    by (simp only: check_modules_iff)
  with True show ?thesis
    by (simp add: DeepLiftShap_init_def isinstance_def)
next
  case False
  then have "check_modules (named_modules (tree mdl)) \<noteq> Inl (ValueError max_pool_message)"
    by (simp only: check_modules_iff not_False_eq_True)
  with check_modules_cases [of "named_modules (tree mdl)"]
  have "check_modules (named_modules (tree mdl)) = Inr ()" by blast
  with False show ?thesis
    by (simp add: DeepLiftShap_init_def isinstance_def)
qed

text \<open>
  C6, as amended. Constructing the engine on a model raises the unsupported-layer
  \<^verbatim>\<open>ValueError\<close> if and only if some module of the model, at any depth, is an instance of
  the base class \<^verbatim>\<open>_MaxPoolNd\<close>, that is, a \<^verbatim>\<open>MaxPool1d\<close>, \<^verbatim>\<open>MaxPool2d\<close> or
  \<^verbatim>\<open>MaxPool3d\<close> layer or a layer derived from one; otherwise construction succeeds and
  returns the engine with empty handle lists. Construction only enumerates the modules: it
  takes no input tensor and runs no forward pass.
\<close>

theorem init_max_pool:
  "DeepLiftShap_init mdl ignore e thr verb =
     (if list_ex (\<lambda>m. issubclass (kind m) MaxPoolNd) (named_modules (tree mdl))
      then Inl (ValueError max_pool_message)
      else Inr \<lparr> model = mdl, ignore_layers = ignore, eps = e,
                 warning_threshold = thr, verbose = verb,
                 forward_handles = [], backward_handles = [] \<rparr>) \<and>
   (issubclass c MaxPoolNd \<longleftrightarrow> c \<in> {MaxPoolNd, MaxPool1d, MaxPool2d, MaxPool3d})"
  by (simp add: DeepLiftShap_init_eq issubclass_def) (cases c; simp)

theorem init_max_pool_witness:
  "DeepLiftShap_init (pooling_model MaxPool1d) [ReLU] (1 / 1000000) (1 / 1000) False =
     Inl (ValueError max_pool_message) \<and>
   DeepLiftShap_init failing_model [ReLU] (1 / 1000000) (1 / 1000) False =
     Inr (engine_for failing_model)"
  by (simp add: init_max_pool issubclass_def failing_model_def relu_net_def engine_for_def
      pooling_model_def)

text \<open>
  The claim as stated fails: an adaptive max-pooling layer is a max-pooling layer, it is
  not an instance of \<^verbatim>\<open>_MaxPoolNd\<close>, and the engine is constructed on a model that
  contains one.
\<close>

theorem init_adaptive_max_pool_counterexample:
  "DeepLiftShap_init (pooling_model AdaptiveMaxPool1d) [ReLU] (1 / 1000000) (1 / 1000) False =
     Inr (engine_for (pooling_model AdaptiveMaxPool1d)) \<and>
   list_ex (\<lambda>m. kind m = AdaptiveMaxPool1d) (named_modules (tree (pooling_model AdaptiveMaxPool1d)))"
  by (simp add: DeepLiftShap_init_eq issubclass_def engine_for_def pooling_model_def)

section \<open>The rescale rule of the backward hook\<close>

lemma rect_tab2:
  assumes "rect k d a"
  shows "a = tab2 k d (\<lambda>i j. a ! i ! j)"
proof -
  from assms have len: "length a = k" and rows: "\<And>i. i < k \<Longrightarrow> length (a ! i) = d"
    by (auto simp: rect_def list_all_length)
  have "a ! i = map (\<lambda>j. a ! i ! j) [0..<d]" if "i < k" for i
    using rows [OF that] by (intro nth_equalityI) simp_all
  with len show ?thesis
    unfolding tab2_def by (intro nth_equalityI) simp_all
qed

lemma rect_tab2_I: "rect k d (tab2 k d f)"
  by (simp add: rect_def tab2_def list_all_length)

lemma tab2_nth: "i < k \<Longrightarrow> j < d \<Longrightarrow> tab2 k d f ! i ! j = f i j"
  by (simp add: tab2_def)

lemma tab2_cong:
  "(\<And>i j. i < k \<Longrightarrow> j < d \<Longrightarrow> f i j = g i j) \<Longrightarrow> tab2 k d f = tab2 k d g"
  by (simp add: tab2_def)

lemma lengths_tab2: "map length (tab2 k d f) = replicate k d"
  by (simp add: tab2_def comp_def map_replicate_const)

lemma chunk_tab2:
  "chunk (tab2 (2 * n) d f) = [tab2 n d f, tab2 n d (\<lambda>i. f (n + i))]"
proof (cases "n = 0")
  case True
  then show ?thesis by (simp add: chunk_def tab2_def)
next
  case False
  have k: "(length (tab2 (2 * n) d f) + 1) div 2 = n" by (simp add: tab2_def)
  have t: "take n (tab2 (2 * n) d f) = tab2 n d f"
    by (simp add: tab2_def take_map)
  have d: "drop n (tab2 (2 * n) d f) = tab2 n d (\<lambda>i. f (n + i))"
    unfolding tab2_def by (rule nth_equalityI) (simp_all add: drop_map)
  have ne: "tab2 (2 * n) d f \<noteq> []" "tab2 n d (\<lambda>i. f (n + i)) \<noteq> []"
    using False by (simp_all add: tab2_def)
  show ?thesis
    unfolding chunk_def k Let_def t d using ne by simp
qed

lemma elementwise_tab2:
  "elementwise g (tab2 k d f) (tab2 k d f') = Inr (tab2 k d (\<lambda>i j. g (f i j) (f' i j)))"
  unfolding elementwise_def lengths_tab2 by (simp add: tab2_def map2_upt)

lemma sub_chunks_tab2:
  "sub_chunks (chunk (tab2 (2 * n) d f)) = Inr (tab2 n d (\<lambda>i j. f i j - f (n + i) j))"
  by (simp add: chunk_tab2 sub_chunks_def elementwise_tab2)

lemma append_tab2:
  "tab2 n d f @ tab2 n d f = tab2 (2 * n) d (\<lambda>i. f (i mod n))"
  unfolding tab2_def
  by (rule nth_equalityI) (auto simp: nth_append mod_if)

lemma zip_upt:
  "zip (map g [0..<n]) (map h [0..<n]) = map (\<lambda>i. (g i, h i)) [0..<n]"
  by (rule nth_equalityI) simp_all

lemma where_lt_tab2:
  "where_lt e (tab2 k d f) (tab2 k d g) (tab2 k d h) =
     Inr (tab2 k d (\<lambda>i j. if \<bar>f i j\<bar> < e then g i j else h i j))"
  unfolding where_lt_def lengths_tab2 by (simp add: tab2_def zip_upt)

lemma backward_hook_tab2:
  assumes inp: "module_input ms = Some inp" and out: "module_output ms = Some out"
    and rinp: "rect (2 * n) d inp" and rout: "rect (2 * n) d out"
    and rgi: "rect (2 * n) d gi" and rgo: "rect (2 * n) d go"
  shows "backward_hook self ms (gi # gis) (go # gos) =
           Inr [tab2 (2 * n) d (rescale (eps self) n inp out gi go)]"
proof -
  let ?i = "\<lambda>i j. inp ! i ! j" and ?o = "\<lambda>i j. out ! i ! j"
  let ?gi = "\<lambda>i j. gi ! i ! j" and ?go = "\<lambda>i j. go ! i ! j"
  have ti: "inp = tab2 (2 * n) d ?i" and to: "out = tab2 (2 * n) d ?o"
    and tgi: "gi = tab2 (2 * n) d ?gi" and tgo: "go = tab2 (2 * n) d ?go"
    by (rule rect_tab2 [OF rinp], rule rect_tab2 [OF rout], rule rect_tab2 [OF rgi],
        rule rect_tab2 [OF rgo])
  have di: "sub_chunks (chunk inp) = Inr (tab2 n d (\<lambda>i j. ?i i j - ?i (n + i) j))"
    by (subst ti) (rule sub_chunks_tab2)
  have dout: "sub_chunks (chunk out) = Inr (tab2 n d (\<lambda>i j. ?o i j - ?o (n + i) j))"
    by (subst to) (rule sub_chunks_tab2)
  have ew1: "elementwise (/) (tab2 (2 * n) d (\<lambda>i j. delta_at n out i j))
               (tab2 (2 * n) d (\<lambda>i j. delta_at n inp i j)) =
             Inr (tab2 (2 * n) d (\<lambda>i j. delta_at n out i j / delta_at n inp i j))"
    by (rule elementwise_tab2)
  have ew2: "elementwise (*) go (tab2 (2 * n) d (\<lambda>i j. delta_at n out i j / delta_at n inp i j)) =
             Inr (tab2 (2 * n) d (\<lambda>i j. ?go i j * (delta_at n out i j / delta_at n inp i j)))"
    by (subst tgo) (rule elementwise_tab2)
  have "where_lt (eps self) (tab2 (2 * n) d (\<lambda>i j. delta_at n inp i j)) (tab2 (2 * n) d ?gi)
              (tab2 (2 * n) d (\<lambda>i j. ?go i j * (delta_at n out i j / delta_at n inp i j))) =
            Inr (tab2 (2 * n) d (rescale (eps self) n inp out gi go))"
    by (simp only: where_lt_tab2 rescale_def [abs_def])
  then have wh: "where_lt (eps self) (tab2 (2 * n) d (\<lambda>i j. delta_at n inp i j)) gi
              (tab2 (2 * n) d (\<lambda>i j. ?go i j * (delta_at n out i j / delta_at n inp i j))) =
            Inr (tab2 (2 * n) d (rescale (eps self) n inp out gi go))"
    by (simp only: tgi [symmetric])
  have app_i: "tab2 n d (\<lambda>i j. ?i i j - ?i (n + i) j) @ tab2 n d (\<lambda>i j. ?i i j - ?i (n + i) j) =
      tab2 (2 * n) d (\<lambda>i j. delta_at n inp i j)"
    unfolding append_tab2 by (rule tab2_cong) (simp add: delta_at_def)
  have app_o: "tab2 n d (\<lambda>i j. ?o i j - ?o (n + i) j) @ tab2 n d (\<lambda>i j. ?o i j - ?o (n + i) j) =
      tab2 (2 * n) d (\<lambda>i j. delta_at n out i j)"
    unfolding append_tab2 by (rule tab2_cong) (simp add: delta_at_def)
  show ?thesis
    unfolding backward_hook_def
    apply (simp only: inp out di dout prod.case option.case sum.case Let_def app_i app_o ew1 ew2 wh list.case)
    done
qed

text \<open>
  C4. In the backward hook of a module whose captured input and output, and the two
  gradients, are batches of \<open>2 * n\<close> rows of \<open>d\<close> elements, with \<open>eps\<close> positive: the
  gradient returned equals, at every element, the incoming gradient (with respect to the
  output) multiplied by \<open>\<Delta>out / \<Delta>in\<close> where \<open>\<bar>\<Delta>in\<bar> \<ge> eps\<close>, and the original gradient
  (with respect to the input) where \<open>\<bar>\<Delta>in\<bar> < eps\<close>; \<open>\<Delta>in\<close> and \<open>\<Delta>out\<close> are the differences
  between the input-side and the baseline-side chunk of the captured input and output.
\<close>

theorem backward_hook_rescale:
  assumes "module_input ms = Some inp" and "module_output ms = Some out"
    and "rect (2 * n) d inp" and "rect (2 * n) d out"
    and "rect (2 * n) d gi" and "rect (2 * n) d go"
    and "0 < eps self"
  shows "backward_hook self ms (gi # gis) (go # gos) =
           Inr [tab2 (2 * n) d (rescale (eps self) n inp out gi go)] \<and>
         (\<forall>i<2 * n. \<forall>j<d.
            (eps self \<le> \<bar>delta_at n inp i j\<bar> \<longrightarrow>
               tab2 (2 * n) d (rescale (eps self) n inp out gi go) ! i ! j =
                 go ! i ! j * (delta_at n out i j / delta_at n inp i j)) \<and>
            (\<bar>delta_at n inp i j\<bar> < eps self \<longrightarrow>
               tab2 (2 * n) d (rescale (eps self) n inp out gi go) ! i ! j = gi ! i ! j))"
  using backward_hook_tab2 [OF assms(1-6)]
  by (simp add: tab2_nth rescale_def del: times_divide_eq_right)

theorem backward_hook_rescale_witness:
  "rect (2 * 1) 3 [[2, -1, 5], [1, -1, 3]] \<and> rect (2 * 1) 3 [[2, 0, 5], [1, 0, 3]] \<and>
   rect (2 * 1) 3 [[1, 0, 1], [1, 0, 1]] \<and> rect (2 * 1) 3 [[7, 7, 7], [7, 7, 7]] \<and>
   backward_hook
     \<lparr>model = \<lparr>tree = Node 0 ReLU [], forward_backward = (\<lambda>st x a. \<lparr>calls = [], outcome = Inl RuntimeError\<rparr>)\<rparr>,
      ignore_layers = [ReLU], eps = 1 / 1000000, warning_threshold = 1 / 1000,
      verbose = False, forward_handles = [], backward_handles = []\<rparr>
     \<lparr>forward_hooks = [], forward_pre_hooks = [], backward_hooks = [],
      is_full_backward_hook = Some True,
      module_input = Some [[2, -1, 5], [1, -1, 3]], module_output = Some [[2, 0, 5], [1, 0, 3]]\<rparr>
     [[[1, 0, 1], [1, 0, 1]]] [[[7, 7, 7], [7, 7, 7]]] =
   Inr [[[7, 0, 7], [7, 0, 7]]]"
proof -
  let ?self = "\<lparr>model = \<lparr>tree = Node 0 ReLU [], forward_backward = (\<lambda>st x a. \<lparr>calls = [], outcome = Inl RuntimeError\<rparr>)\<rparr>,
      ignore_layers = [ReLU], eps = 1 / 1000000, warning_threshold = 1 / 1000,
      verbose = False, forward_handles = [], backward_handles = []\<rparr>"
  let ?ms = "\<lparr>forward_hooks = [], forward_pre_hooks = [], backward_hooks = [],
      is_full_backward_hook = Some True,
      module_input = Some [[2, -1, 5], [1, -1, 3]], module_output = Some [[2, 0, 5], [1, 0, 3]]\<rparr>"
  have r: "rect (2 * 1) 3 [[2, -1, 5], [1, -1, 3]]" "rect (2 * 1) 3 [[2, 0, 5], [1, 0, 3]]"
    "rect (2 * 1) 3 [[1, 0, 1], [1, 0, 1]]" "rect (2 * 1) 3 [[7, 7, 7], [7, 7, 7]]"
    by (simp_all add: rect_def)
  have e: "0 < eps ?self" by simp
  have t: "tab2 (2 * 1) 3 (rescale (eps ?self) 1 [[2, -1, 5], [1, -1, 3]] [[2, 0, 5], [1, 0, 3]]
             [[1, 0, 1], [1, 0, 1]] [[7, 7, 7], [7, 7, 7]]) = [[7, 0, 7], [7, 0, 7]]"
    by (simp add: tab2_def rescale_def delta_at_def upt_conv_Cons del: upt_Suc)
  have i: "module_input ?ms = Some [[2, -1, 5], [1, -1, 3]]"
    and o: "module_output ?ms = Some [[2, 0, 5], [1, 0, 3]]" by simp_all
  from backward_hook_rescale [OF i o r e, of "[]" "[]"] r show ?thesis
    unfolding t by blast
qed

lemma fold_invariant:
  assumes "\<And>x s. x \<in> set xs \<Longrightarrow> Q s \<Longrightarrow> Q (f x s)"
  shows "Q s \<Longrightarrow> Q (fold f xs s)"
  using assms by (induction xs arbitrary: s) simp_all

lemma named_modules_child:
  "m \<in> set ms \<Longrightarrow> k \<in> set (named_modules m) \<Longrightarrow> k \<in> set (named_modules (Node a c ms))"
  by auto

lemma apply_fn_invariant:
  assumes step: "\<And>m s. m \<in> set (named_modules t) \<Longrightarrow> P (None, s) \<Longrightarrow> P (fn m s)"
  shows "P (None, s) \<Longrightarrow> P (apply_fn fn t s)"
  using step
proof (induction t arbitrary: s)
  case (Node a c ms)
  let ?step = "\<lambda>m r. case r of (None, s1) \<Rightarrow> apply_fn fn m s1 | (Some e, s1) \<Rightarrow> (Some e, s1)"
  have "P (fold ?step ms (None, s))"
  proof (rule fold_invariant [where Q = P])
    fix m r assume m: "m \<in> set ms" and r: "P r"
    show "P (?step m r)"
    proof (cases r)
      case (Pair err s1)
      show ?thesis
      proof (cases err)
        case None
        have "P (apply_fn fn m s1)"
        proof (rule Node.IH [OF m])
          show "P (None, s1)" using r Pair None by simp
          show "P (fn k s')" if "k \<in> set (named_modules m)" "P (None, s')" for k s'
            using that m by (intro Node.prems(2)) auto
        qed
        with Pair None show ?thesis by simp
      next
        case (Some e)
        with r Pair show ?thesis by simp
      qed
    qed
  qed (rule Node.prems(1))
  moreover have "P (fn (Node a c ms) s1)" if "P (None, s1)" for s1
    using that by (intro Node.prems(2)) simp
  ultimately show ?case
    by (auto split: prod.splits option.splits)
qed

lemma fold_raised:
  "fold (\<lambda>m r. case r of (None, s1) \<Rightarrow> f m s1 | (Some e, s1) \<Rightarrow> (Some e, s1)) ms (Some e, s) =
     (Some e, s)"
  by (induction ms) simp_all

lemma apply_fn_visits:
  assumes step: "\<And>m s s'. Q s \<Longrightarrow> fn m s = (None, s') \<Longrightarrow> Q s' \<and> R m"
  shows "Q s \<Longrightarrow> apply_fn fn t s = (None, s') \<Longrightarrow> Q s' \<and> (\<forall>m\<in>set (named_modules t). R m)"
proof (induction t arbitrary: s s')
  case (Node a c ms)
  let ?step = "\<lambda>m r. case r of (None, s1) \<Rightarrow> apply_fn fn m s1 | (Some e, s1) \<Rightarrow> (Some e, s1)"
  have kids: "Q s0 \<Longrightarrow> set ks \<subseteq> set ms \<Longrightarrow> fold ?step ks (None, s0) = (None, s1) \<Longrightarrow>
      Q s1 \<and> (\<forall>m\<in>set ks. \<forall>k\<in>set (named_modules m). R k)" for ks s0 s1
  proof (induction ks arbitrary: s0)
    case Nil
    then show ?case by simp
  next
    case (Cons m ks)
    obtain err s2 where a: "apply_fn fn m s0 = (err, s2)" by (cases "apply_fn fn m s0")
    from Cons.prems(3) have f: "fold ?step ks (err, s2) = (None, s1)" by (simp add: a)
    have "err = None"
    proof (cases err)
      case (Some e)
      with f show ?thesis by (simp add: fold_raised)
    qed simp
    from Cons.prems(2) have m: "m \<in> set ms" by simp
    from Node.IH [OF m Cons.prems(1) a [unfolded \<open>err = None\<close>]]
    have "Q s2" and "\<forall>k\<in>set (named_modules m). R k" by simp_all
    moreover from Cons.IH [OF \<open>Q s2\<close> _ f [unfolded \<open>err = None\<close>]] Cons.prems(2)
    have "Q s1 \<and> (\<forall>m\<in>set ks. \<forall>k\<in>set (named_modules m). R k)" by simp
    ultimately show ?case by simp
  qed
  obtain err s1 where f: "fold ?step ms (None, s) = (err, s1)" by (cases "fold ?step ms (None, s)")
  from Node.prems(2) have "err = None" and last: "fn (Node a c ms) s1 = (None, s')"
    by (auto simp: f split: option.splits)
  from kids [OF Node.prems(1) subset_refl f [unfolded \<open>err = None\<close>]]
  have "Q s1" and below: "\<forall>m\<in>set ms. \<forall>k\<in>set (named_modules m). R k" by simp_all
  from step [OF \<open>Q s1\<close> last] below show ?case by auto
qed

section \<open>Which layers are hooked\<close>

lemma register_hooks_unfold:
  "register_hooks layer (self, st) =
     (if backward_hooks (modules st (ident layer)) = [] \<and> isinstance layer (ignore_layers self)
      then
        if is_full_backward_hook (modules st (ident layer)) = Some False
        then
          (Some RuntimeError, self,
           st\<lparr>modules := (modules st)
                  (ident layer := (modules st (ident layer))
                     \<lparr>forward_hooks := forward_hooks (modules st (ident layer)) @
                          [(next_id st, EngineForwardHook)],
                      forward_pre_hooks := forward_pre_hooks (modules st (ident layer)) @
                          [(Suc (next_id st), EngineForwardPreHook)]\<rparr>),
              next_id := Suc (Suc (next_id st))\<rparr>)
        else
          (None,
           self\<lparr>forward_handles := forward_handles self @
                  [\<lparr>h_module = ident layer, h_table = ForwardHooks, h_id = next_id st\<rparr>,
                   \<lparr>h_module = ident layer, h_table = ForwardPreHooks, h_id = Suc (next_id st)\<rparr>],
                backward_handles := backward_handles self @
                  [\<lparr>h_module = ident layer, h_table = BackwardHooks, h_id = Suc (Suc (next_id st))\<rparr>]\<rparr>,
           st\<lparr>modules := (modules st)
                  (ident layer := (modules st (ident layer))
                     \<lparr>forward_hooks := forward_hooks (modules st (ident layer)) @
                          [(next_id st, EngineForwardHook)],
                      forward_pre_hooks := forward_pre_hooks (modules st (ident layer)) @
                          [(Suc (next_id st), EngineForwardPreHook)],
                      is_full_backward_hook := Some True,
                      backward_hooks := [(Suc (Suc (next_id st)), EngineBackwardHook)]\<rparr>),
              next_id := Suc (Suc (Suc (next_id st)))\<rparr>)
      else (None, self, st))"
  by (simp add: register_hooks_def can_register_hook_def register_forward_hook_def
      register_forward_pre_hook_def register_full_backward_hook_def add_hook_def hooks_of_def
      set_hooks_def)

section \<open>Evaluating the examples\<close>

lemma fresh_initial: "fresh initial_state"
  by (simp add: fresh_def initial_state_def no_hooks_def hooks_of_def split: hook_table.splits)

lemma idle_engine_for: "idle (engine_for mdl) st"
  by (simp add: idle_def live_def handled_def engine_for_def)

lemmas engine_eval =
  try_block_def attribute_def engine_for_def relu_net_def initial_state_def
  no_hooks_def register_hooks_unfold isinstance_def issubclass_def fire_def has_hook_def
  forward_pre_hook_def forward_hook_def Let_def shape_def remove_def hooks_of_def set_hooks_def




section \<open>Removing the hooks\<close>

lemma hooks_of_set_hooks:
  "hooks_of tbl (set_hooks tbl' hs ms) = (if tbl = tbl' then hs else hooks_of tbl ms)"
  by (cases tbl; cases tbl') (simp_all add: hooks_of_def set_hooks_def)

lemma set_hooks_frame:
  "module_input (set_hooks tbl hs ms) = module_input ms"
  "module_output (set_hooks tbl hs ms) = module_output ms"
  "is_full_backward_hook (set_hooks tbl hs ms) = is_full_backward_hook ms"
  by (cases tbl; simp add: set_hooks_def)+

lemma hooks_of_remove:
  "hooks_of tbl (modules (remove h st) a) =
     (if h_module h = a \<and> h_table h = tbl
      then filter (\<lambda>e. fst e \<noteq> h_id h) (hooks_of tbl (modules st a))
      else hooks_of tbl (modules st a))"
  by (simp add: remove_def hooks_of_set_hooks)

lemma remove_frame:
  "module_input (modules (remove h st) a) = module_input (modules st a)"
  "module_output (modules (remove h st) a) = module_output (modules st a)"
  "is_full_backward_hook (modules (remove h st) a) = is_full_backward_hook (modules st a)"
  "next_id (remove h st) = next_id st"
  "warned (remove h st) = warned st"
  "printed (remove h st) = printed st"
  by (simp_all add: remove_def set_hooks_frame)

lemma handle_eq_iff:
  "(h = \<lparr>h_module = a, h_table = tbl, h_id = i\<rparr>) \<longleftrightarrow> h_module h = a \<and> h_table h = tbl \<and> h_id h = i"
  "(\<lparr>h_module = a, h_table = tbl, h_id = i\<rparr> = h) \<longleftrightarrow> h_module h = a \<and> h_table h = tbl \<and> h_id h = i"
  by (cases h; auto)+

lemma hooks_of_fold_remove:
  "hooks_of tbl (modules (fold remove hs st) a) =
     filter (\<lambda>e. \<lparr>h_module = a, h_table = tbl, h_id = fst e\<rparr> \<notin> set hs) (hooks_of tbl (modules st a))"
proof (induction hs arbitrary: st)
  case Nil
  show ?case by simp
next
  case (Cons h hs)
  show ?case
    by (auto simp: Cons.IH hooks_of_remove handle_eq_iff intro!: filter_cong)
qed

lemma fold_remove_frame:
  "module_input (modules (fold remove hs st) a) = module_input (modules st a)"
  "module_output (modules (fold remove hs st) a) = module_output (modules st a)"
  "is_full_backward_hook (modules (fold remove hs st) a) = is_full_backward_hook (modules st a)"
  "next_id (fold remove hs st) = next_id st"
  "warned (fold remove hs st) = warned st"
  "printed (fold remove hs st) = printed st"
  by (induction hs arbitrary: st) (simp_all add: remove_frame)

lemma filter_fresh_cong:
  assumes "\<And>e. e \<in> set xs \<Longrightarrow> fst e < n"
    and "\<And>i. i < n \<Longrightarrow> P i = Q i"
  shows "filter (\<lambda>e. P (fst e)) xs = filter (\<lambda>e. Q (fst e)) xs"
  using assms by (intro filter_cong) auto

lemma register_hooks_inv:
  assumes "hooks_inv L s" and ok: "register_hooks layer s = (None, s')"
  shows "hooks_inv L s'"
proof (cases s)
  case (Pair self st)
  with assms have fr: "fresh st" and lv: "\<And>a tbl. live self st a tbl = L a tbl"
    by (simp_all add: hooks_inv_def)
  show ?thesis
  proof (cases "backward_hooks (modules st (ident layer)) = [] \<and> isinstance layer (ignore_layers self)")
    case False
    then have "register_hooks layer (self, st) = (None, self, st)"
      unfolding register_hooks_unfold by (rule if_not_P)
    with assms Pair show ?thesis by simp
  next
    case True
    let ?n = "next_id st"
    obtain self' st' where s': "s' = (self', st')" by (cases s')
    from ok Pair s' have r: "register_hooks layer (self, st) = (None, self', st')" by simp
    from r True have mark: "is_full_backward_hook (modules st (ident layer)) \<noteq> Some False"
      by (auto simp: register_hooks_unfold split: if_splits)
    from r True mark have nid: "next_id st' = Suc (Suc (Suc ?n))"
      by (auto simp: register_hooks_unfold)
    have old: "fst e < ?n" if "e \<in> set (hooks_of tbl (modules st a))" for e a tbl
      using fr that by (auto simp: fresh_def)
    have ent: "hooks_of tbl (modules st' a) =
        hooks_of tbl (modules st a) @
          (if a = ident layer then
             (case tbl of ForwardHooks \<Rightarrow> [(?n, EngineForwardHook)]
              | ForwardPreHooks \<Rightarrow> [(Suc ?n, EngineForwardPreHook)]
              | BackwardHooks \<Rightarrow> [(Suc (Suc ?n), EngineBackwardHook)])
           else [])" for a tbl
      using r True mark by (cases tbl) (auto simp: register_hooks_unfold hooks_of_def)
    have hd: "handled self' a tbl i \<longleftrightarrow>
        handled self a tbl i \<or>
        (a = ident layer \<and>
          (case tbl of ForwardHooks \<Rightarrow> i = ?n | ForwardPreHooks \<Rightarrow> i = Suc ?n
           | BackwardHooks \<Rightarrow> i = Suc (Suc ?n)))" for a tbl i
      using r True mark by (cases tbl) (auto simp: register_hooks_unfold handled_def)
    have "fresh st'"
      unfolding fresh_def
    proof (intro allI ballI)
      fix a tbl e assume "e \<in> set (hooks_of tbl (modules st' a))"
      then show "fst e < next_id st'"
        unfolding ent nid using old [of e tbl a]
        by (cases tbl) (auto split: if_splits)
    qed
    moreover have "live self' st' a tbl = L a tbl" for a tbl
    proof -
      have "filter (\<lambda>e. \<not> handled self' a tbl (fst e)) (hooks_of tbl (modules st a)) =
            filter (\<lambda>e. \<not> handled self a tbl (fst e)) (hooks_of tbl (modules st a))"
        by (rule filter_fresh_cong [where n = ?n]) (use old in \<open>auto simp: hd split: hook_table.splits\<close>)
      then show ?thesis
        unfolding lv [symmetric] live_def ent
        by (cases tbl) (auto simp: hd)
    qed
    ultimately show ?thesis
      using s' by (simp add: hooks_inv_def)
  qed
qed

lemma apply_register_hooks_inv:
  assumes "hooks_inv L s" and "apply_fn register_hooks t s = (None, s')"
  shows "hooks_inv L s'"
proof -
  have "fst (apply_fn register_hooks t s) = None \<longrightarrow> hooks_inv L (snd (apply_fn register_hooks t s))"
  proof (rule apply_fn_invariant [where P = "\<lambda>r. fst r = None \<longrightarrow> hooks_inv L (snd r)"])
    show "fst (register_hooks m s1) = None \<longrightarrow> hooks_inv L (snd (register_hooks m s1))"
      if "fst (None :: py_error option, s1) = None \<longrightarrow> hooks_inv L (snd (None :: py_error option, s1))"
      for m s1
      using that register_hooks_inv [of L s1 m "snd (register_hooks m s1)"]
      by (cases "register_hooks m s1") auto
  qed (simp add: assms(1))
  with assms(2) show ?thesis by simp
qed

lemma register_hooks_same_config:
  "same_config s0 s \<Longrightarrow> same_config s0 (snd (register_hooks layer s))"
  by (cases s) (auto simp: same_config_def register_hooks_unfold)

lemma apply_register_hooks_same_config:
  "same_config s0 (snd (apply_fn register_hooks t s0))"
  by (rule apply_fn_invariant [where P = "\<lambda>r. same_config s0 (snd r)"])
     (simp_all add: register_hooks_same_config, simp add: same_config_def)

lemma register_hooks_raises:
  "fst (register_hooks layer s) = None \<or> fst (register_hooks layer s) = Some RuntimeError"
  by (cases s) (simp add: register_hooks_unfold)

lemma apply_register_hooks_raises:
  "fst (apply_fn register_hooks t s) = None \<or> fst (apply_fn register_hooks t s) = Some RuntimeError"
  by (rule apply_fn_invariant [where P = "\<lambda>r. fst r = None \<or> fst r = Some RuntimeError"])
     (simp_all add: register_hooks_raises)

lemma fire_frame:
  assumes "fire ev st = Inr st'"
  shows "hooks_of tbl (modules st' a) = hooks_of tbl (modules st a)"
    and "next_id st' = next_id st" and "warned st' = warned st" and "printed st' = printed st"
  using assms
  by (auto simp: fire_def forward_pre_hook_def forward_hook_def hooks_of_def
      split: event.splits if_splits list.splits hook_table.splits)

lemma fire_all_frame:
  assumes "fire_all evs st = (err, st')"
  shows "hooks_of tbl (modules st' a) = hooks_of tbl (modules st a) \<and>
         next_id st' = next_id st \<and> warned st' = warned st \<and> printed st' = printed st"
  using assms
proof (induction evs arbitrary: st)
  case Nil
  then show ?case by simp
next
  case (Cons ev evs)
  show ?case
  proof (cases "fire ev st")
    case (Inl e)
    with Cons.prems show ?thesis by simp
  next
    case (Inr st1)
    with Cons.prems have "fire_all evs st1 = (err, st')" by simp
    from Cons.IH [OF this] fire_frame [OF Inr] show ?thesis by simp
  qed
qed

lemma fire_input:
  assumes "fire ev st = Inr st'"
    and "has_hook EngineForwardPreHook (forward_pre_hooks (modules st a))"
  shows "module_input (modules st' a) = last_input a [ev] (module_input (modules st a))"
  using assms
  by (auto simp: fire_def forward_pre_hook_def forward_hook_def
      split: event.splits if_splits list.splits)

lemma fire_output:
  assumes "fire ev st = Inr st'"
    and "has_hook EngineForwardHook (forward_hooks (modules st a))"
  shows "module_output (modules st' a) = last_output a [ev] (module_output (modules st a))"
  using assms
  by (auto simp: fire_def forward_pre_hook_def forward_hook_def
      split: event.splits if_splits list.splits)

lemma last_input_Cons: "last_input a (ev # evs) old = last_input a evs (last_input a [ev] old)"
  by (cases ev) simp_all

lemma last_output_Cons: "last_output a (ev # evs) old = last_output a evs (last_output a [ev] old)"
  by (cases ev) simp_all

lemma fire_all_captures:
  assumes "fire_all evs st = (None, st')"
    and "has_hook EngineForwardPreHook (forward_pre_hooks (modules st a))"
    and "has_hook EngineForwardHook (forward_hooks (modules st a))"
  shows "module_input (modules st' a) = last_input a evs (module_input (modules st a)) \<and>
         module_output (modules st' a) = last_output a evs (module_output (modules st a))"
  using assms
proof (induction evs arbitrary: st)
  case Nil
  then show ?case by simp
next
  case (Cons ev evs)
  show ?case
  proof (cases "fire ev st")
    case (Inl e)
    with Cons.prems show ?thesis by simp
  next
    case (Inr st1)
    with Cons.prems have f: "fire_all evs st1 = (None, st')" by simp
    have h: "has_hook EngineForwardPreHook (forward_pre_hooks (modules st1 a))"
      "has_hook EngineForwardHook (forward_hooks (modules st1 a))"
      using fire_frame(1) [OF Inr, of ForwardPreHooks a] fire_frame(1) [OF Inr, of ForwardHooks a]
        Cons.prems(2,3) by (simp_all add: hooks_of_def)
    from Cons.IH [OF f h] fire_input [OF Inr Cons.prems(2)] fire_output [OF Inr Cons.prems(3)]
    show ?thesis
      by (simp only: last_input_Cons [of a ev evs] last_output_Cons [of a ev evs])
  qed
qed

lemma check_convergence_frame:
  assumes "check_convergence self st inputs baselines outputs gradients = (res, st')"
  shows "modules st' = modules st" and "next_id st' = next_id st"
  using assms
  by (auto simp: check_convergence_def Let_def split: sum.splits if_splits)

lemma try_block_unfold:
  assumes "apply_fn register_hooks (tree (model self)) (self, st) = (None, selfA, stA)"
    and "r = forward_backward (model self) stA (inputs @ baselines)
               (map_option (map (\<lambda>arg. arg @ arg)) args)"
    and "fire_all (calls r) stA = (err, stB)"
  shows "try_block self st inputs baselines args =
     (case err of
        Some e \<Rightarrow> (Inl e, selfA, stB)
      | None \<Rightarrow>
          (case outcome r of
             Inl e \<Rightarrow> (Inl e, selfA, stB)
           | Inr (outputs, gradients) \<Rightarrow>
               (case check_convergence selfA stB inputs baselines outputs gradients of
                  (res, stC) \<Rightarrow> (res, selfA, stC))))"
  using assms(1,3) unfolding assms(2) try_block_def Let_def by simp

lemma try_block_raised:
  assumes "apply_fn register_hooks (tree (model self)) (self, st) = (Some e, selfA, stA)"
  shows "try_block self st inputs baselines args = (Inl e, selfA, stA)"
  using assms by (simp add: try_block_def)

lemma fire_mark:
  assumes "fire ev st = Inr st'"
  shows "is_full_backward_hook (modules st' a) = is_full_backward_hook (modules st a)"
  using assms
  by (auto simp: fire_def forward_pre_hook_def forward_hook_def
      split: event.splits if_splits list.splits)

lemma fire_all_mark:
  assumes "fire_all evs st = (err, st')"
  shows "is_full_backward_hook (modules st' a) = is_full_backward_hook (modules st a)"
  using assms
proof (induction evs arbitrary: st)
  case Nil
  then show ?case by simp
next
  case (Cons ev evs)
  show ?case
  proof (cases "fire ev st")
    case (Inl e)
    with Cons.prems show ?thesis by simp
  next
    case (Inr st1)
    with Cons.prems have "fire_all evs st1 = (err, st')" by simp
    from Cons.IH [OF this] fire_mark [OF Inr] show ?thesis by simp
  qed
qed

lemma try_block_tables:
  assumes ap: "apply_fn register_hooks (tree (model self)) (self, st) = (ea, selfA, stA)"
    and tb: "try_block self st inputs baselines args = (res, self1, st1)"
  shows "self1 = selfA"
    and "hooks_of tbl (modules st1 a) = hooks_of tbl (modules stA a)"
    and "is_full_backward_hook (modules st1 a) = is_full_backward_hook (modules stA a)"
    and "next_id st1 = next_id stA"
    and "ea \<noteq> None \<Longrightarrow> res = Inl (the ea)"
proof -
  define r where "r = forward_backward (model self) stA (inputs @ baselines)
               (map_option (map (\<lambda>arg. arg @ arg)) args)"
  obtain err stB where fa: "fire_all (calls r) stA = (err, stB)"
    by (cases "fire_all (calls r) stA")
  note fr = fire_all_frame [OF fa] fire_all_mark [OF fa]
  have "self1 = selfA \<and> (\<forall>a tbl. hooks_of tbl (modules st1 a) = hooks_of tbl (modules stA a)) \<and>
        (\<forall>a. is_full_backward_hook (modules st1 a) = is_full_backward_hook (modules stA a)) \<and>
        next_id st1 = next_id stA \<and> (ea \<noteq> None \<longrightarrow> res = Inl (the ea))"
  proof (cases ea)
    case (Some e)
    from tb try_block_raised [OF ap [unfolded Some]] Some show ?thesis by simp
  next
    case None
    note u = try_block_unfold [OF ap [unfolded None] r_def fa, of]
    from tb fr None show ?thesis
      unfolding u
      by (auto split: option.splits sum.splits prod.splits dest: check_convergence_frame)
  qed
  then show "self1 = selfA"
    and "hooks_of tbl (modules st1 a) = hooks_of tbl (modules stA a)"
    and "is_full_backward_hook (modules st1 a) = is_full_backward_hook (modules stA a)"
    and "next_id st1 = next_id stA"
    and "ea \<noteq> None \<Longrightarrow> res = Inl (the ea)"
    by simp_all
qed

lemma try_block_state:
  assumes tb: "try_block self st inputs baselines args = (res, self1, st1)"
  shows "same_config (self, st) (self1, st1\<lparr>modules := modules st, warned := warned st,
            printed := printed st\<rparr>)"
    and "fresh st \<Longrightarrow> fst (apply_fn register_hooks (tree (model self)) (self, st)) = None \<Longrightarrow>
         hooks_inv (live self st) (self1, st1)"
proof -
  obtain ea selfA stA
    where ap: "apply_fn register_hooks (tree (model self)) (self, st) = (ea, selfA, stA)"
    by (cases "apply_fn register_hooks (tree (model self)) (self, st)")
  have sc: "same_config (self, st) (selfA, stA)"
    using apply_register_hooks_same_config [of "(self, st)" "tree (model self)"] ap by simp
  note t = try_block_tables [OF ap tb]
  show "same_config (self, st) (self1, st1\<lparr>modules := modules st, warned := warned st,
            printed := printed st\<rparr>)"
    using sc t(1,4) by (simp add: same_config_def)
  show "hooks_inv (live self st) (self1, st1)"
    if "fresh st" "fst (apply_fn register_hooks (tree (model self)) (self, st)) = None"
  proof -
    from that(1) have "hooks_inv (live self st) (self, st)" by (simp add: hooks_inv_def)
    moreover from that(2) ap have "apply_fn register_hooks (tree (model self)) (self, st) =
        (None, selfA, stA)" by simp
    ultimately have "hooks_inv (live self st) (selfA, stA)"
      by (rule apply_register_hooks_inv)
    with t(1,2,4) show ?thesis
      by (simp add: hooks_inv_def fresh_def live_def)
  qed
qed

lemma live_fold_remove:
  "hooks_of tbl (modules (fold remove (forward_handles self @ backward_handles self) st) a) =
     live self st a tbl"
  by (simp only: hooks_of_fold_remove live_def handled_def)

lemma attribute_unfold:
  assumes "shape inputs = shape baselines"
    and "try_block self st inputs baselines args = (res, self1, st1)"
  shows "attribute self st inputs baselines args =
           (res, self1, fold remove (forward_handles self1 @ backward_handles self1) st1)"
  using assms by (simp add: attribute_def del: fold_append)

text \<open>
  Where the registration of the hooks does not raise, every hook table of every module is
  after the call what it was before it, whatever way the call ends (the result \<open>res\<close> is the
  gradients, or the exception of the assertion, of a hook, of the forward or backward pass
  or of the convergence check). The state is fresh and the engine idle again.
\<close>

lemma attribute_restores_hooks:
  assumes "fresh st" and "idle self st"
    and reg: "fst (apply_fn register_hooks (tree (model self)) (self, st)) = None"
    and "attribute self st inputs baselines args = (res, self', st')"
  shows "(\<forall>a tbl. hooks_of tbl (modules st' a) = hooks_of tbl (modules st a)) \<and>
         fresh st' \<and> idle self' st'"
proof (cases "shape inputs \<noteq> shape baselines")
  case True
  with assms show ?thesis by (simp add: attribute_def)
next
  case False
  obtain r1 self1 st1 where tb: "try_block self st inputs baselines args = (r1, self1, st1)"
    by (cases "try_block self st inputs baselines args")
  with False assms(4) have eq: "self' = self1"
    "st' = fold remove (forward_handles self1 @ backward_handles self1) st1"
    by (simp_all add: attribute_def del: fold_append, blast)
  from try_block_state(2) [OF tb assms(1) reg]
  have fr1: "fresh st1" and lv: "\<And>a tbl. live self1 st1 a tbl = live self st a tbl"
    by (simp_all add: hooks_inv_def)
  from try_block_state(1) [OF tb] have nid: "next_id st \<le> next_id st1"
    by (simp add: same_config_def)
  have tables: "hooks_of tbl (modules st' a) = hooks_of tbl (modules st a)" for a tbl
    unfolding eq live_fold_remove lv using assms(2) by (simp add: idle_def)
  have "fresh st'"
    unfolding fresh_def tables
  proof (intro allI ballI)
    fix a tbl e assume "e \<in> set (hooks_of tbl (modules st a))"
    with assms(1) have "fst e < next_id st" by (auto simp: fresh_def)
    with nid show "fst e < next_id st'" by (simp add: eq fold_remove_frame)
  qed
  moreover have "idle self' st'"
    unfolding idle_def
  proof (intro allI)
    fix a tbl
    have a2: "hooks_of tbl (modules st' a) = live self1 st1 a tbl"
      by (simp only: eq(2) live_fold_remove)
    have "live self1 st' a tbl = filter (\<lambda>e. \<not> handled self1 a tbl (fst e)) (live self1 st1 a tbl)"
      by (simp only: live_def [of self1 st'] a2)
    also have "\<dots> = live self1 st1 a tbl" by (simp add: live_def)
    finally show "live self' st' a tbl = hooks_of tbl (modules st' a)"
      by (simp only: eq(1) a2)
  qed
  ultimately show ?thesis using tables by simp
qed

text \<open>
  C3. The call leaves hooks behind when the registration itself raises. The rectifier of
  \<open>rectifier_model\<close> has no hook in \<open>legacy_state\<close>, where it is marked as holding backward
  hooks of the old kind. \<^verbatim>\<open>_can_register_hook\<close> accepts it, its forward hook and its
  forward-pre hook are registered, \<^verbatim>\<open>register_full_backward_hook\<close> raises, and the
  \<^verbatim>\<open>finally\<close> block finds no handle in the lists of the engine: the call propagates the
  \<^verbatim>\<open>RuntimeError\<close> and the two hooks stay on the module. From \<open>initial_state\<close> the same
  call returns the gradient and leaves no hook.
\<close>

theorem attribute_leaves_forward_hooks:
  "forward_hooks (modules legacy_state 2) = [] \<and>
   forward_pre_hooks (modules legacy_state 2) = [] \<and>
   backward_hooks (modules legacy_state 2) = [] \<and>
   fst (attribute (engine_for rectifier_model) legacy_state [[[1]]] [[[0]]] None) =
     Inl RuntimeError \<and>
   forward_hooks (modules (snd (snd
      (attribute (engine_for rectifier_model) legacy_state [[[1]]] [[[0]]] None))) 2) =
     [(0, EngineForwardHook)] \<and>
   forward_pre_hooks (modules (snd (snd
      (attribute (engine_for rectifier_model) legacy_state [[[1]]] [[[0]]] None))) 2) =
     [(1, EngineForwardPreHook)] \<and>
   forward_handles (fst (snd
      (attribute (engine_for rectifier_model) legacy_state [[[1]]] [[[0]]] None))) = [] \<and>
   fst (attribute (engine_for rectifier_model) initial_state [[[1]]] [[[0]]] None) =
     Inr [[[1]]] \<and>
   forward_hooks (modules (snd (snd
      (attribute (engine_for rectifier_model) initial_state [[[1]]] [[[0]]] None))) 2) = [] \<and>
   forward_pre_hooks (modules (snd (snd
      (attribute (engine_for rectifier_model) initial_state [[[1]]] [[[0]]] None))) 2) = [] \<and>
   backward_hooks (modules (snd (snd
      (attribute (engine_for rectifier_model) initial_state [[[1]]] [[[0]]] None))) 2) = []"
  by (simp add: engine_eval rectifier_model_def legacy_state_def check_convergence_def
      convergence_deltas_def column0_def chunk_def sub_chunks1_def broadcast1_def
      sum_dims12_def tensor_mul_def tensor_sub_def)

section \<open>The convergence warning\<close>

text \<open>
  C7. When the forward and backward pass returns and the deltas are computed,
  \<^verbatim>\<open>attribute\<close> returns the gradients whatever the deltas are; it has issued one warning
  that lists the deltas if some delta exceeds the threshold and none otherwise; and it has
  printed the deltas if and only if \<^verbatim>\<open>verbose\<close> is set.
\<close>

theorem attribute_convergence_warning:
  assumes sh: "shape inputs = shape baselines"
    and ap: "apply_fn register_hooks (tree (model self)) (self, st) = (None, selfA, stA)"
    and r: "r = forward_backward (model self) stA (inputs @ baselines)
                 (map_option (map (\<lambda>arg. arg @ arg)) args)"
    and fa: "fire_all (calls r) stA = (None, stB)"
    and oc: "outcome r = Inr (outputs, gradients)"
    and cd: "convergence_deltas inputs baselines outputs gradients = Inr deltas"
    and at: "attribute self st inputs baselines args = (res, self', st')"
  shows "res = Inr gradients \<and>
         warned st' = warned st @
           (if list_ex (\<lambda>d. d > warning_threshold self) deltas then [deltas] else []) \<and>
         printed st' = printed st @ (if verbose self then [deltas] else [])"
proof -
  have sc: "same_config (self, st) (selfA, stA)"
    using apply_register_hooks_same_config [of "(self, st)" "tree (model self)"] ap by simp
  then have cfg: "warning_threshold selfA = warning_threshold self" "verbose selfA = verbose self"
    "warned stA = warned st" "printed stA = printed st"
    by (simp_all add: same_config_def)
  from fire_all_frame [OF fa] cfg have B: "warned stB = warned st" "printed stB = printed st"
    by simp_all
  define stC where "stC = snd (check_convergence selfA stB inputs baselines outputs gradients)"
  have cc: "check_convergence selfA stB inputs baselines outputs gradients = (Inr gradients, stC)"
    unfolding stC_def by (simp add: check_convergence_def cd Let_def)
  have C: "warned stC = warned st @
           (if list_ex (\<lambda>d. d > warning_threshold self) deltas then [deltas] else [])"
    "printed stC = printed st @ (if verbose self then [deltas] else [])"
    unfolding stC_def by (simp_all add: check_convergence_def cd Let_def cfg B)
  have "try_block self st inputs baselines args = (Inr gradients, selfA, stC)"
    unfolding try_block_unfold [OF ap r fa] by (simp add: oc cc)
  from attribute_unfold [OF sh this] at C show ?thesis
    by (auto simp: fold_remove_frame)
qed

theorem attribute_convergence_warning_witness:
  "shape [[[1], [0], [0], [0]]] = shape [[[0], [1], [0], [0]]] \<and>
   convergence_deltas [[[1], [0], [0], [0]]] [[[0], [1], [0], [0]]] [[1], [0]]
     [[[2], [0], [0], [0]]] = Inr [1] \<and>
   fst (attribute ((engine_for square_model)\<lparr>verbose := True\<rparr>) initial_state
         [[[1], [0], [0], [0]]] [[[0], [1], [0], [0]]] None) = Inr [[[2], [0], [0], [0]]] \<and>
   warned (snd (snd (attribute ((engine_for square_model)\<lparr>verbose := True\<rparr>) initial_state
         [[[1], [0], [0], [0]]] [[[0], [1], [0], [0]]] None))) = [[1]] \<and>
   printed (snd (snd (attribute ((engine_for square_model)\<lparr>verbose := True\<rparr>) initial_state
         [[[1], [0], [0], [0]]] [[[0], [1], [0], [0]]] None))) = [[1]]"
proof -
  let ?self = "(engine_for square_model)\<lparr>verbose := True\<rparr>"
  let ?X = "[[[1], [0], [0], [0]]] :: tensor" and ?B = "[[[0], [1], [0], [0]]] :: tensor"
  let ?r = "forward_backward (model ?self) initial_state (?X @ ?B)
              (map_option (map (\<lambda>arg. arg @ arg)) None)"
  have sh: "shape ?X = shape ?B" by (simp add: shape_def)
  have ap: "apply_fn register_hooks (tree (model ?self)) (?self, initial_state) =
              (None, ?self, initial_state)"
    by (simp add: engine_eval square_model_def)
  have fa: "fire_all (calls ?r) initial_state = (None, initial_state)"
    by (simp add: engine_eval square_model_def)
  have oc: "outcome ?r = Inr ([[1], [0]], [[[2], [0], [0], [0]]])"
    by (simp add: engine_for_def square_model_def)
  have cd: "convergence_deltas ?X ?B [[1], [0]] [[[2], [0], [0], [0]]] = Inr [1]"
    by (simp add: convergence_deltas_def column0_def chunk_def sub_chunks1_def broadcast1_def
        sum_dims12_def tensor_mul_def tensor_sub_def)
  have at: "attribute ?self initial_state ?X ?B None =
      (fst (attribute ?self initial_state ?X ?B None),
       fst (snd (attribute ?self initial_state ?X ?B None)),
       snd (snd (attribute ?self initial_state ?X ?B None)))"
    by simp
  have thr: "warning_threshold ?self = 1 / 1000" "verbose ?self" "warned initial_state = []"
    "printed initial_state = []"
    by (simp_all add: engine_for_def initial_state_def)
  from attribute_convergence_warning [OF sh ap refl fa oc cd at] sh cd
  show ?thesis unfolding thr by simp
qed

section \<open>What the cleanup leaves on the modules\<close>

text \<open>
  C10, as amended. The \<^verbatim>\<open>finally\<close> block changes \<^verbatim>\<open>module.input\<close> and
  \<^verbatim>\<open>module.output\<close> of no module: after the call they are what the \<^verbatim>\<open>try\<close> block
  left. For a module that was hooked, and a forward pass in which no hook raised, they are
  the tensors captured at the last call of the module during the pass, whether the pass and
  the call end in an exception or not; a hooked module that the pass never called keeps what
  it had before the call.
\<close>

theorem attribute_keeps_captures:
  assumes sh: "shape inputs = shape baselines"
    and ap: "apply_fn register_hooks (tree (model self)) (self, st) = (None, selfA, stA)"
    and r: "r = forward_backward (model self) stA (inputs @ baselines)
                 (map_option (map (\<lambda>arg. arg @ arg)) args)"
    and fa: "fire_all (calls r) stA = (None, stB)"
    and pre: "has_hook EngineForwardPreHook (forward_pre_hooks (modules stA a))"
    and post: "has_hook EngineForwardHook (forward_hooks (modules stA a))"
    and tb: "try_block self st inputs baselines args = (res, self1, st1)"
    and at: "attribute self st inputs baselines args = (res', self', st')"
  shows "module_input (modules st' a) = last_input a (calls r) (module_input (modules st a)) \<and>
         module_output (modules st' a) = last_output a (calls r) (module_output (modules st a)) \<and>
         (\<forall>b. module_input (modules st' b) = module_input (modules st1 b) \<and>
              module_output (modules st' b) = module_output (modules st1 b))"
proof -
  have sc: "same_config (self, st) (selfA, stA)"
    using apply_register_hooks_same_config [of "(self, st)" "tree (model self)"] ap by simp
  then have A: "module_input (modules stA a) = module_input (modules st a)"
    "module_output (modules stA a) = module_output (modules st a)"
    by (simp_all add: same_config_def)
  from fire_all_captures [OF fa pre post] A
  have B: "module_input (modules stB a) = last_input a (calls r) (module_input (modules st a))"
    "module_output (modules stB a) = last_output a (calls r) (module_output (modules st a))"
    by simp_all
  have "modules st1 = modules stB"
    using tb unfolding try_block_unfold [OF ap r fa]
    by (auto split: sum.splits prod.splits dest: check_convergence_frame)
  moreover from attribute_unfold [OF sh tb] at
  have "st' = fold remove (forward_handles self1 @ backward_handles self1) st1" by simp
  ultimately show ?thesis using B by (simp add: fold_remove_frame del: fold_append)
qed

theorem attribute_keeps_captures_witness:
  "shape [[[1]]] = shape [[[0]]] \<and>
   fst (apply_fn register_hooks relu_net (engine_for backward_failing_model, initial_state)) = None \<and>
   has_hook EngineForwardPreHook (forward_pre_hooks (modules (snd (snd
      (apply_fn register_hooks relu_net (engine_for backward_failing_model, initial_state)))) 2)) \<and>
   has_hook EngineForwardHook (forward_hooks (modules (snd (snd
      (apply_fn register_hooks relu_net (engine_for backward_failing_model, initial_state)))) 2)) \<and>
   fst (attribute (engine_for backward_failing_model) initial_state [[[1]]] [[[0]]] None) =
     Inl RuntimeError \<and>
   module_input (modules (snd (snd
      (attribute (engine_for backward_failing_model) initial_state [[[1]]] [[[0]]] None))) 2) =
     Some [[-2], [0]] \<and>
   module_output (modules (snd (snd
      (attribute (engine_for backward_failing_model) initial_state [[[1]]] [[[0]]] None))) 2) =
     Some [[0], [0]]"
proof -
  let ?self = "engine_for backward_failing_model"
  let ?X = "[[[1]]] :: tensor" and ?B = "[[[0]]] :: tensor"
  let ?s = "snd (apply_fn register_hooks relu_net (?self, initial_state))"
  let ?r = "forward_backward (model ?self) (snd ?s) (?X @ ?B)
              (map_option (map (\<lambda>arg. arg @ arg)) None)"
  have sh: "shape ?X = shape ?B" by (simp add: shape_def)
  have ok: "fst (apply_fn register_hooks relu_net (?self, initial_state)) = None"
    by (simp add: engine_eval)
  then have ap: "apply_fn register_hooks (tree (model ?self)) (?self, initial_state) =
      (None, fst ?s, snd ?s)"
    by (simp add: engine_for_def backward_failing_model_def prod_eq_iff)
  have fa: "fire_all (calls ?r) (snd ?s) = (None, snd (fire_all (calls ?r) (snd ?s)))"
    by (simp add: engine_eval backward_failing_model_def)
  have pre: "has_hook EngineForwardPreHook (forward_pre_hooks (modules (snd ?s) 2))"
    and post: "has_hook EngineForwardHook (forward_hooks (modules (snd ?s) 2))"
    by (simp_all add: engine_eval)
  have tb: "try_block ?self initial_state ?X ?B None =
      (fst (try_block ?self initial_state ?X ?B None),
       fst (snd (try_block ?self initial_state ?X ?B None)),
       snd (snd (try_block ?self initial_state ?X ?B None)))"
    by simp
  have at: "attribute ?self initial_state ?X ?B None =
      (fst (attribute ?self initial_state ?X ?B None),
       fst (snd (attribute ?self initial_state ?X ?B None)),
       snd (snd (attribute ?self initial_state ?X ?B None)))"
    by simp
  have ev: "last_input 2 (calls ?r) (module_input (modules initial_state 2)) = Some [[-2], [0]]"
    "last_output 2 (calls ?r) (module_output (modules initial_state 2)) = Some [[0], [0]]"
    "fst (attribute ?self initial_state ?X ?B None) = Inl RuntimeError"
    by (simp_all add: engine_eval backward_failing_model_def)
  note k = attribute_keeps_captures [OF sh ap refl fa pre post tb at]
  from k have i: "module_input (modules (snd (snd (attribute ?self initial_state ?X ?B None))) 2) =
      last_input 2 (calls ?r) (module_input (modules initial_state 2))"
    by (rule conjunct1)
  from k have o: "module_output (modules (snd (snd (attribute ?self initial_state ?X ?B None))) 2) =
      last_output 2 (calls ?r) (module_output (modules initial_state 2))"
    by (rule conjunct1 [OF conjunct2])
  from sh ok pre post ev show ?thesis unfolding i o by simp
qed

text \<open>
  The claim as stated fails where the forward pass raises before it reaches a hooked module:
  the rectifier of \<open>failing_model\<close> is hooked during the call, the linear layer before it
  raises, and after the call the rectifier carries neither attribute.
\<close>

theorem attribute_captures_counterexample:
  "has_hook EngineForwardPreHook
     (forward_pre_hooks (modules (snd (snd
        (try_block (engine_for failing_model) initial_state [[[1]]] [[[0]]] None))) 2)) \<and>
   fst (attribute (engine_for failing_model) initial_state [[[1]]] [[[0]]] None) = Inl RuntimeError \<and>
   module_input (modules (snd (snd
        (attribute (engine_for failing_model) initial_state [[[1]]] [[[0]]] None))) 2) = None \<and>
   module_output (modules (snd (snd
        (attribute (engine_for failing_model) initial_state [[[1]]] [[[0]]] None))) 2) = None"
  by (simp add: engine_eval failing_model_def)

section \<open>When the registration of the hooks raises\<close>

lemma register_hooks_marks:
  assumes inv: "marks_inv ig st0 s" and ok: "register_hooks layer s = (None, s')"
  shows "marks_inv ig st0 s'"
    and "\<not> (isinstance layer ig \<and> backward_hooks (modules st0 (ident layer)) = [] \<and>
            is_full_backward_hook (modules st0 (ident layer)) = Some False)"
proof -
  obtain self st where s: "s = (self, st)" by (cases s)
  obtain self' st' where s': "s' = (self', st')" by (cases s')
  from inv s have ig: "ignore_layers self = ig"
    and md: "\<And>a. modules st a = modules st0 a \<or>
          (is_full_backward_hook (modules st0 a) \<noteq> Some False \<and>
           is_full_backward_hook (modules st a) = Some True)"
    and hs: "\<And>h. h \<in> set (forward_handles self @ backward_handles self) \<Longrightarrow>
          is_full_backward_hook (modules st (h_module h)) = Some True"
    by (simp_all add: marks_inv_def)
  from ok s s' have r: "register_hooks layer (self, st) = (None, self', st')" by simp
  show "marks_inv ig st0 s'"
  proof (cases "backward_hooks (modules st (ident layer)) = [] \<and> isinstance layer (ignore_layers self)")
    case False
    with r have "self' = self" "st' = st" by (simp_all add: register_hooks_unfold)
    with inv s s' show ?thesis by simp
  next
    case True
    with r have mark: "is_full_backward_hook (modules st (ident layer)) \<noteq> Some False"
      by (auto simp: register_hooks_unfold split: if_splits)
    from r True mark have ig': "ignore_layers self' = ig"
      and other: "\<And>a. a \<noteq> ident layer \<Longrightarrow> modules st' a = modules st a"
      and here: "is_full_backward_hook (modules st' (ident layer)) = Some True"
      and hs': "set (forward_handles self' @ backward_handles self') \<subseteq>
                set (forward_handles self @ backward_handles self) \<union> {h. h_module h = ident layer}"
      using ig by (auto simp: register_hooks_unfold)
    have "modules st' a = modules st0 a \<or>
          (is_full_backward_hook (modules st0 a) \<noteq> Some False \<and>
           is_full_backward_hook (modules st' a) = Some True)" for a
    proof (cases "a = ident layer")
      case True
      with md [of a] mark here show ?thesis by auto
    next
      case False
      with md [of a] other show ?thesis by simp
    qed
    moreover have "is_full_backward_hook (modules st' (h_module h)) = Some True"
      if "h \<in> set (forward_handles self' @ backward_handles self')" for h
    proof (cases "h_module h = ident layer")
      case True
      with here show ?thesis by simp
    next
      case False
      with that hs' have "h \<in> set (forward_handles self @ backward_handles self)" by auto
      from hs [OF this] other [OF False] show ?thesis by simp
    qed
    ultimately show ?thesis using ig' s' by (simp add: marks_inv_def)
  qed
  show "\<not> (isinstance layer ig \<and> backward_hooks (modules st0 (ident layer)) = [] \<and>
            is_full_backward_hook (modules st0 (ident layer)) = Some False)"
  proof
    assume b: "isinstance layer ig \<and> backward_hooks (modules st0 (ident layer)) = [] \<and>
            is_full_backward_hook (modules st0 (ident layer)) = Some False"
    with md [of "ident layer"] have "modules st (ident layer) = modules st0 (ident layer)" by simp
    with b ig have "fst (register_hooks layer (self, st)) = Some RuntimeError"
      by (simp add: register_hooks_unfold)
    with r show False by simp
  qed
qed

lemma register_hooks_unblocked:
  assumes inv: "marks_inv ig st0 s" and nb: "\<not> blocked ig st0 t"
    and m: "layer \<in> set (named_modules t)"
  shows "fst (register_hooks layer s) = None"
proof (rule ccontr)
  assume raised: "fst (register_hooks layer s) \<noteq> None"
  obtain self st where s: "s = (self, st)" by (cases s)
  from inv s have ig: "ignore_layers self = ig"
    and md: "modules st (ident layer) = modules st0 (ident layer) \<or>
          (is_full_backward_hook (modules st0 (ident layer)) \<noteq> Some False \<and>
           is_full_backward_hook (modules st (ident layer)) = Some True)"
    by (simp_all add: marks_inv_def)
  from raised s have c: "backward_hooks (modules st (ident layer)) = []"
    "isinstance layer (ignore_layers self)"
    "is_full_backward_hook (modules st (ident layer)) = Some False"
    by (auto simp: register_hooks_unfold split: if_splits)
  with md have "modules st (ident layer) = modules st0 (ident layer)" by simp
  with c ig m have "blocked ig st0 t" by (auto simp: blocked_def list_ex_iff)
  with nb show False ..
qed

lemma marks_inv_start:
  assumes "forward_handles self = []" and "backward_handles self = []"
  shows "marks_inv (ignore_layers self) st (self, st)"
  using assms by (simp add: marks_inv_def)

lemma apply_register_hooks_blocked:
  assumes b: "blocked (ignore_layers self) st t"
    and h: "forward_handles self = []" "backward_handles self = []"
  shows "fst (apply_fn register_hooks t (self, st)) = Some RuntimeError"
proof -
  let ?R = "\<lambda>m. \<not> (isinstance m (ignore_layers self) \<and> backward_hooks (modules st (ident m)) = [] \<and>
            is_full_backward_hook (modules st (ident m)) = Some False)"
  have "fst (apply_fn register_hooks t (self, st)) \<noteq> None"
  proof
    assume "fst (apply_fn register_hooks t (self, st)) = None"
    then have ap: "apply_fn register_hooks t (self, st) =
        (None, snd (apply_fn register_hooks t (self, st)))"
      by (simp add: prod_eq_iff)
    have "marks_inv (ignore_layers self) st (snd (apply_fn register_hooks t (self, st))) \<and>
          (\<forall>m\<in>set (named_modules t). ?R m)"
      by (rule apply_fn_visits [where Q = "marks_inv (ignore_layers self) st", OF _ _ ap])
         (use register_hooks_marks marks_inv_start [OF h] in blast)+
    with b show False by (auto simp: blocked_def list_ex_iff)
  qed
  with apply_register_hooks_raises [of t "(self, st)"] show ?thesis by simp
qed

lemma apply_register_hooks_unblocked:
  assumes nb: "\<not> blocked (ignore_layers self) st t"
    and h: "forward_handles self = []" "backward_handles self = []"
  shows "fst (apply_fn register_hooks t (self, st)) = None \<and>
         marks_inv (ignore_layers self) st (snd (apply_fn register_hooks t (self, st)))"
proof (rule apply_fn_invariant
    [where P = "\<lambda>r. fst r = None \<and> marks_inv (ignore_layers self) st (snd r)"])
  show "fst (None :: py_error option, self, st) = None \<and>
        marks_inv (ignore_layers self) st (snd (None :: py_error option, self, st))"
    using marks_inv_start [OF h] by simp
  fix m s
  assume m: "m \<in> set (named_modules t)"
    and "fst (None :: py_error option, s) = None \<and>
         marks_inv (ignore_layers self) st (snd (None :: py_error option, s))"
  then have inv: "marks_inv (ignore_layers self) st s" by simp
  have f: "fst (register_hooks m s) = None"
    by (rule register_hooks_unblocked [OF inv nb m])
  then have ok: "register_hooks m s = (None, snd (register_hooks m s))"
    by (simp add: prod_eq_iff)
  have "marks_inv (ignore_layers self) st (snd (register_hooks m s))"
    by (rule register_hooks_marks(1) [OF inv ok])
  with f show "fst (register_hooks m s) = None \<and>
        marks_inv (ignore_layers self) st (snd (register_hooks m s))" ..
qed

lemma attribute_blocked:
  assumes b: "blocked (ignore_layers self) st (tree (model self))"
    and h: "forward_handles self = []" "backward_handles self = []"
    and sh: "shape inputs = shape baselines"
  shows "fst (attribute self st inputs baselines args) = Inl RuntimeError"
proof -
  from apply_register_hooks_blocked [OF b h]
  have "apply_fn register_hooks (tree (model self)) (self, st) =
      (Some RuntimeError, snd (apply_fn register_hooks (tree (model self)) (self, st)))"
    by (simp add: prod_eq_iff)
  then have "apply_fn register_hooks (tree (model self)) (self, st) =
      (Some RuntimeError, fst (snd (apply_fn register_hooks (tree (model self)) (self, st))),
       snd (snd (apply_fn register_hooks (tree (model self)) (self, st))))"
    by simp
  from try_block_raised [OF this, of inputs baselines args] sh show ?thesis
    by (simp add: attribute_def split_beta)
qed

lemma attribute_stays_unblocked:
  assumes nb: "\<not> blocked (ignore_layers self) st (tree (model self))"
    and h: "forward_handles self = []" "backward_handles self = []"
    and at: "attribute self st inputs baselines args = (res, self', st')"
  shows "\<not> blocked (ignore_layers self) st' (tree (model self))"
proof (cases "shape inputs \<noteq> shape baselines")
  case True
  with at nb show ?thesis by (simp add: attribute_def)
next
  case False
  obtain ea selfA stA
    where ap: "apply_fn register_hooks (tree (model self)) (self, st) = (ea, selfA, stA)"
    by (cases "apply_fn register_hooks (tree (model self)) (self, st)")
  from apply_register_hooks_unblocked [OF nb h] ap
  have inv: "marks_inv (ignore_layers self) st (selfA, stA)" by simp
  obtain r1 self1 st1 where tb: "try_block self st inputs baselines args = (r1, self1, st1)"
    by (cases "try_block self st inputs baselines args")
  note t = try_block_tables [OF ap tb]
  from attribute_unfold [OF _ tb] False at
  have st': "st' = fold remove (forward_handles selfA @ backward_handles selfA) st1"
    by (simp add: t(1))
  show ?thesis
  proof
    assume "blocked (ignore_layers self) st' (tree (model self))"
    then obtain m where m: "m \<in> set (named_modules (tree (model self)))"
      and i: "isinstance m (ignore_layers self)"
      and e: "backward_hooks (modules st' (ident m)) = []"
      and f: "is_full_backward_hook (modules st' (ident m)) = Some False"
      by (auto simp: blocked_def list_ex_iff)
    from f have fA: "is_full_backward_hook (modules stA (ident m)) = Some False"
      by (simp add: st' fold_remove_frame t(3))
    with inv have same: "modules stA (ident m) = modules st (ident m)"
      by (auto simp: marks_inv_def)
    have "\<lparr>h_module = ident m, h_table = BackwardHooks, h_id = k\<rparr> \<notin>
            set (forward_handles selfA @ backward_handles selfA)" for k
    proof
      assume "\<lparr>h_module = ident m, h_table = BackwardHooks, h_id = k\<rparr> \<in>
            set (forward_handles selfA @ backward_handles selfA)"
      with inv have "is_full_backward_hook (modules stA
          (h_module \<lparr>h_module = ident m, h_table = BackwardHooks, h_id = k\<rparr>)) = Some True"
        unfolding marks_inv_def fst_conv snd_conv by blast
      with fA show False by simp
    qed
    then have "hooks_of BackwardHooks (modules st' (ident m)) =
        hooks_of BackwardHooks (modules st1 (ident m))"
      unfolding st' hooks_of_fold_remove by simp
    also have "\<dots> = hooks_of BackwardHooks (modules st (ident m))"
      by (simp only: t(2) same)
    finally have "backward_hooks (modules st (ident m)) = []"
      using e by (simp add: hooks_of_def)
    moreover from fA same have "is_full_backward_hook (modules st (ident m)) = Some False"
      by simp
    ultimately have "blocked (ignore_layers self) st (tree (model self))"
      using m i by (auto simp: blocked_def list_ex_iff)
    with nb show False ..
  qed
qed

section \<open>Precomputed references\<close>

lemma run_batch_clears:
  assumes "run_batch mdl X args refs ns rr hyp thr pcd rs s = Inr s1"
  shows "Xi s1 = [] \<and> rj s1 = []"
  using assms
  by (auto simp: run_batch_def split: sum.splits prod.splits)

lemma for_loop_doomed:
  fixes D :: "'g loop_state \<Rightarrow> bool"
  assumes app: "\<And>s a b. D s \<Longrightarrow> D (s\<lparr>Xi := Xi s @ [a], rj := rj s @ [b]\<rparr>)"
    and fail: "\<And>s. D s \<Longrightarrow> isl (run_batch mdl X args refs (nat ns) rr hyp thr pcd rs s)"
  shows "D s \<Longrightarrow> a < n \<Longrightarrow>
         isl (for_loop (loop_body mdl X args refs ns bs rr hyp thr pcd rs (int n)) [a..<n] s)"
proof (induction "n - a" arbitrary: a s)
  case 0
  then show ?case by simp
next
  case (Suc d)
  let ?s1 = "s\<lparr>Xi := Xi s @ [nat (int a div ns)], rj := rj s @ [nat (int a mod ns)]\<rparr>"
  have D1: "D ?s1" by (rule app [OF Suc.prems(1)])
  have up: "[a..<n] = a # [Suc a..<n]" using Suc.prems(2) by (simp add: upt_conv_Cons)
  show ?case
  proof (cases "int (length (Xi ?s1)) = bs \<or> int a = int n - 1")
    case True
    then have "loop_body mdl X args refs ns bs rr hyp thr pcd rs (int n) a s =
        run_batch mdl X args refs (nat ns) rr hyp thr pcd rs ?s1"
      by (simp add: loop_body_def Let_def)
    with fail [OF D1] show ?thesis
      unfolding up by (auto simp: isl_def)
  next
    case False
    then have lb: "loop_body mdl X args refs ns bs rr hyp thr pcd rs (int n) a s = Inr ?s1"
      by (simp add: loop_body_def Let_def)
    from False Suc.prems(2) have lt: "Suc a < n" by auto
    with Suc.hyps(2) have "d = n - Suc a" by simp
    from Suc.hyps(1) [OF this D1 lt] show ?thesis
      unfolding up by (simp add: lb)
  qed
qed

lemma for_loop_doomed_now:
  fixes D :: "'g loop_state \<Rightarrow> bool"
  assumes app: "\<And>s a b. D s \<Longrightarrow> D (s\<lparr>Xi := Xi s @ [a], rj := rj s @ [b]\<rparr>)"
    and fail: "\<And>s. D s \<Longrightarrow> isl (run_batch mdl X args refs (nat ns) rr hyp thr pcd rs s)"
    and now: "D (s\<lparr>Xi := Xi s @ [nat (int a div ns)], rj := rj s @ [nat (int a mod ns)]\<rparr>)"
    and lt: "a < n"
  shows "isl (for_loop (loop_body mdl X args refs ns bs rr hyp thr pcd rs (int n)) [a..<n] s)"
proof -
  let ?s1 = "s\<lparr>Xi := Xi s @ [nat (int a div ns)], rj := rj s @ [nat (int a mod ns)]\<rparr>"
  have up: "[a..<n] = a # [Suc a..<n]" using lt by (simp add: upt_conv_Cons)
  show ?thesis
  proof (cases "int (length (Xi ?s1)) = bs \<or> int a = int n - 1")
    case True
    then have "loop_body mdl X args refs ns bs rr hyp thr pcd rs (int n) a s =
        run_batch mdl X args refs (nat ns) rr hyp thr pcd rs ?s1"
      by (simp add: loop_body_def Let_def)
    with fail [OF now] show ?thesis
      unfolding up by (auto simp: isl_def)
  next
    case False
    then have lb: "loop_body mdl X args refs ns bs rr hyp thr pcd rs (int n) a s = Inr ?s1"
      by (simp add: loop_body_def Let_def)
    from False lt have "Suc a < n" by auto
    from for_loop_doomed [of D, OF app fail now this] show ?thesis
      unfolding up by (simp add: lb)
  qed
qed

lemma for_loop_doomed_later:
  fixes D :: "'g loop_state \<Rightarrow> bool"
  assumes app: "\<And>s a b. D s \<Longrightarrow> D (s\<lparr>Xi := Xi s @ [a], rj := rj s @ [b]\<rparr>)"
    and fail: "\<And>s. D s \<Longrightarrow> isl (run_batch mdl X args refs (nat ns) rr hyp thr pcd rs s)"
    and start: "\<And>s. batch_aligned s \<Longrightarrow>
       D (s\<lparr>Xi := Xi s @ [nat (int i0 div ns)], rj := rj s @ [nat (int i0 mod ns)]\<rparr>)"
  shows "batch_aligned s \<Longrightarrow> a \<le> i0 \<Longrightarrow> i0 < n \<Longrightarrow>
         isl (for_loop (loop_body mdl X args refs ns bs rr hyp thr pcd rs (int n)) [a..<n] s)"
proof (induction "i0 - a" arbitrary: a s)
  case 0
  then have "a = i0" by simp
  with for_loop_doomed_now [of D, OF app fail start [OF "0.prems"(1)] "0.prems"(3)]
  show ?case by simp
next
  case (Suc d)
  let ?s1 = "s\<lparr>Xi := Xi s @ [nat (int a div ns)], rj := rj s @ [nat (int a mod ns)]\<rparr>"
  from Suc.hyps(2) Suc.prems have lt: "a < n" and le: "Suc a \<le> i0" and d: "d = i0 - Suc a"
    by simp_all
  have up: "[a..<n] = a # [Suc a..<n]" using lt by (simp add: upt_conv_Cons)
  have al1: "batch_aligned ?s1" using Suc.prems(1) by (simp add: batch_aligned_def)
  show ?case
  proof (cases "loop_body mdl X args refs ns bs rr hyp thr pcd rs (int n) a s")
    case (Inl e)
    then show ?thesis unfolding up by simp
  next
    case (Inr s2)
    have "batch_aligned s2"
    proof (cases "int (length (Xi ?s1)) = bs \<or> int a = int n - 1")
      case True
      with Inr have "run_batch mdl X args refs (nat ns) rr hyp thr pcd rs ?s1 = Inr s2"
        by (simp add: loop_body_def Let_def)
      from run_batch_clears [OF this] show ?thesis by (simp add: batch_aligned_def)
    next
      case False
      with Inr have "s2 = ?s1" by (simp add: loop_body_def Let_def)
      with al1 show ?thesis by simp
    qed
    from Suc.hyps(1) [OF d this le Suc.prems(3)] show ?thesis
      unfolding up by (simp add: Inr)
  qed
qed

lemma shape_head:
  "t \<noteq> [] \<Longrightarrow> u \<noteq> [] \<Longrightarrow> hd t = hd u \<Longrightarrow> snd (shape t) = snd (shape u)"
  by (cases t; cases u) (simp_all add: shape_def)

lemma run_batch_inputs_fail:
  "isl (batch_inputs X args refs rs s) \<Longrightarrow> isl (run_batch mdl X args refs ns rr hyp thr pcd rs s)"
  by (auto simp: run_batch_def isl_def)

lemma explain_batch_assert:
  "shape X' \<noteq> shape refs' \<Longrightarrow> isl (explain_batch mdl thr pcd st X' refs' args')"
  by (simp add: explain_batch_def attribute_def split: sum.splits)

lemma batch_inputs_short_refs:
  assumes "batch_aligned s" and "\<exists>k\<in>set (Xi s). length R \<le> k"
  shows "isl (batch_inputs X args (RefTensor R) rs s)"
proof -
  from assms obtain k where k: "k \<in> set (Xi s)" "length R \<le> k" by blast
  from k(1) obtain p where p: "p < length (Xi s)" "Xi s ! p = k"
    by (auto simp: in_set_conv_nth)
  with assms(1) have "(k, rj s ! p) \<in> set (zip (Xi s) (rj s))"
    by (auto simp: batch_aligned_def in_set_zip intro!: exI [of _ p])
  with k(2) have "\<not> list_all (\<lambda>(k, j). k < length R \<and> j < length (R ! k)) (zip (Xi s) (rj s))"
    by (auto simp: list_all_iff intro!: bexI [of _ "(k, rj s ! p)"])
  then have "pairs_at R (Xi s) (rj s) = Inl IndexError"
    by (simp add: pairs_at_def)
  then show ?thesis
    by (simp add: batch_inputs_def make_references_def split: sum.splits option.splits)
qed

lemma batch_inputs_misshapen_refs:
  assumes al: "batch_aligned s" and ne: "Xi s \<noteq> []" and h: "hd (Xi s) = 0" "hd (rj s) = 0"
    and X: "X \<noteq> []" and R: "R \<noteq> []" and sh: "snd (shape (hd R)) \<noteq> snd (shape X)"
    and bi: "batch_inputs X args (RefTensor R) rs s = Inr (X', args', refs', g1)"
  shows "shape X' \<noteq> shape refs'"
proof -
  from al ne obtain ks js where xi: "Xi s = 0 # ks" "rj s = 0 # js"
    using h by (cases "Xi s"; cases "rj s") (auto simp: batch_aligned_def)
  from bi have 1: "rows_at X (Xi s) = Inr X'" and 2: "pairs_at R (Xi s) (rj s) = Inr refs'"
    by (auto simp: batch_inputs_def make_references_def split: sum.splits option.splits)
  from 1 have X': "X' = X ! 0 # map (\<lambda>k. X ! k) ks"
    by (auto simp: rows_at_def xi split: if_splits)
  from 2 have r: "refs' = R ! 0 ! 0 # map (\<lambda>(k, j). R ! k ! j) (zip ks js)"
    and r0: "0 < length (R ! 0)"
    by (auto simp: pairs_at_def xi split: if_splits)
  from X have "snd (shape X') = snd (shape X)"
    unfolding X' by (intro shape_head) (simp_all add: hd_conv_nth)
  moreover from R r0 have "snd (shape refs') = snd (shape (hd R))"
    unfolding r by (intro shape_head) (simp_all add: hd_conv_nth)
  ultimately show ?thesis using sh by auto
qed

lemma run_batch_short_refs:
  assumes "batch_aligned s" and "\<exists>k\<in>set (Xi s). length R \<le> k"
  shows "isl (run_batch mdl X args (RefTensor R) ns rr hyp thr pcd rs s)"
  by (rule run_batch_inputs_fail) (rule batch_inputs_short_refs [OF assms])

lemma run_batch_misshapen_refs:
  assumes al: "batch_aligned s" and ne: "Xi s \<noteq> []" and h: "hd (Xi s) = 0" "hd (rj s) = 0"
    and X: "X \<noteq> []" and R: "R \<noteq> []" and sh: "snd (shape (hd R)) \<noteq> snd (shape X)"
  shows "isl (run_batch mdl X args (RefTensor R) ns rr hyp thr pcd rs s)"
proof (cases "batch_inputs X args (RefTensor R) rs s")
  case (Inl e)
  then show ?thesis by (simp add: run_batch_def)
next
  case (Inr r)
  obtain X' args' refs' g1 where r: "r = (X', args', refs', g1)" by (cases r)
  from batch_inputs_misshapen_refs [OF assms Inr [unfolded r]]
  have "isl (explain_batch mdl thr pcd (torch s) X' refs' args')"
    by (rule explain_batch_assert)
  then show ?thesis
    by (auto simp: run_batch_def Inr r isl_def)
qed

lemma stack_Nil: "stack [] = Inl RuntimeError"
  by (simp add: stack_def)

lemma deep_lift_shap_no_work:
  assumes "(case refs of
              RefTensor R \<Rightarrow> int (case R of [] \<Rightarrow> 0 | t # _ \<Rightarrow> length t)
            | RefFunc f \<Rightarrow> ns0) \<le> 0 \<or> X = []"
  shows "deep_lift_shap mdl st g X args refs ns0 bs rr hyp thr pcd rs = Inl RuntimeError"
proof -
  let ?ns = "case refs of
              RefTensor R \<Rightarrow> int (case R of [] \<Rightarrow> 0 | t # _ \<Rightarrow> length t)
            | RefFunc f \<Rightarrow> ns0"
  from assms have "int (length X) * ?ns \<le> 0"
    by (auto simp: mult_le_0_iff)
  then have "[0..<nat (int (length X) * ?ns)] = []" by simp
  then show ?thesis
    unfolding deep_lift_shap_def Let_def by (simp add: stack_Nil)
qed

lemma deep_lift_shap_loop_fails:
  assumes "isl (for_loop
      (loop_body mdl X args (RefTensor R) (int (case R of [] \<Rightarrow> 0 | t # _ \<Rightarrow> length t)) bs rr hyp
         thr pcd rs (int (length X) * int (case R of [] \<Rightarrow> 0 | t # _ \<Rightarrow> length t)))
      [0..<nat (int (length X) * int (case R of [] \<Rightarrow> 0 | t # _ \<Rightarrow> length t))]
      \<lparr>Xi = [], rj = [], attr' = [], z = 0, attributions = [], references' = [],
       torch = st, rng = g\<rparr>)"
  shows "isl (deep_lift_shap mdl st g X args (RefTensor R) ns0 bs rr hyp thr pcd rs)"
  using assms unfolding deep_lift_shap_def Let_def by (auto simp: isl_def)

text \<open>
  C9, as amended. With a precomputed tensor of references \<^verbatim>\<open>deep_lift_shap\<close> raises
  when the tensor has fewer rows than \<^verbatim>\<open>X\<close> has examples, and when the references do
  not have the shape of the examples (\<^verbatim>\<open>X.shape[1:]\<close>); its second axis is taken as
  the number of shuffles, whatever \<^verbatim>\<open>n_shuffles\<close> says.
\<close>

theorem deep_lift_shap_reference_tensor:
  assumes "length R < length X \<or> (X \<noteq> [] \<and> R \<noteq> [] \<and> snd (shape (hd R)) \<noteq> snd (shape X))"
  shows "isl (deep_lift_shap mdl st g X args (RefTensor R) n_shuffles0 batch_size
                return_references hypothetical threshold print_convergence_deltas random_state)"
proof (cases "(case R of [] \<Rightarrow> 0 | t # _ \<Rightarrow> length t) = 0 \<or> X = []")
  case True
  then have "deep_lift_shap mdl st g X args (RefTensor R) n_shuffles0 batch_size
                return_references hypothetical threshold print_convergence_deltas random_state =
             Inl RuntimeError"
    by (intro deep_lift_shap_no_work) auto
  then show ?thesis by simp
next
  case False
  define ns where "ns = (case R of [] \<Rightarrow> 0 | t # _ \<Rightarrow> length t)"
  define n where "n = length X * ns"
  from False have ns: "0 < ns" and X: "X \<noteq> []" by (simp_all add: ns_def)
  have n: "int (length X) * int ns = int n" by (simp add: n_def)
  let ?init = "\<lparr>Xi = [], rj = [], attr' = [], z = 0, attributions = [], references' = [],
       torch = st, rng = g\<rparr>"
  have al: "batch_aligned ?init" by (simp add: batch_aligned_def)
  have "isl (for_loop
      (loop_body mdl X args (RefTensor R) (int ns) batch_size return_references hypothetical
         threshold print_convergence_deltas random_state (int n)) [0..<n] ?init)"
    using assms
  proof
    assume short: "length R < length X"
    define D :: "'a loop_state \<Rightarrow> bool"
      where "D s \<longleftrightarrow> batch_aligned s \<and> (\<exists>k\<in>set (Xi s). length R \<le> k)" for s
    have i0: "length R * ns < n" using short ns by (simp add: n_def)
    have dv: "nat (int (length R * ns) div int ns) = length R"
      using ns by (simp add: zdiv_int [symmetric] del: of_nat_mult)
    show ?thesis
    proof (rule for_loop_doomed_later [of D, OF _ _ _ al _ i0])
      show "D (s\<lparr>Xi := Xi s @ [a], rj := rj s @ [b]\<rparr>)" if "D s" for s a b
        using that by (auto simp: D_def batch_aligned_def)
      show "isl (run_batch mdl X args (RefTensor R) (nat (int ns)) return_references hypothetical
                   threshold print_convergence_deltas random_state s)" if "D s" for s
        using that unfolding D_def by (intro run_batch_short_refs) auto
      show "D (s\<lparr>Xi := Xi s @ [nat (int (length R * ns) div int ns)],
                  rj := rj s @ [nat (int (length R * ns) mod int ns)]\<rparr>)"
        if "batch_aligned s" for s
        using that unfolding dv by (simp add: D_def batch_aligned_def)
    qed simp
  next
    assume mis: "X \<noteq> [] \<and> R \<noteq> [] \<and> snd (shape (hd R)) \<noteq> snd (shape X)"
    define D :: "'a loop_state \<Rightarrow> bool"
      where "D s \<longleftrightarrow> batch_aligned s \<and> Xi s \<noteq> [] \<and> hd (Xi s) = 0 \<and> hd (rj s) = 0" for s
    have "0 < n" using X ns by (simp add: n_def)
    show ?thesis
    proof (rule for_loop_doomed_now [of D, OF _ _ _ \<open>0 < n\<close>])
      show "D (s\<lparr>Xi := Xi s @ [a], rj := rj s @ [b]\<rparr>)" if "D s" for s a b
      proof -
        from that have "rj s \<noteq> []" by (auto simp: D_def batch_aligned_def)
        with that show ?thesis by (auto simp: D_def batch_aligned_def)
      qed
      show "isl (run_batch mdl X args (RefTensor R) (nat (int ns)) return_references hypothetical
                   threshold print_convergence_deltas random_state s)" if "D s" for s
        using that mis unfolding D_def by (intro run_batch_misshapen_refs) auto
      show "D (?init\<lparr>Xi := Xi ?init @ [nat (int 0 div int ns)],
                  rj := rj ?init @ [nat (int 0 mod int ns)]\<rparr>)"
        by (simp add: D_def batch_aligned_def)
    qed
  qed
  then show ?thesis
    by (intro deep_lift_shap_loop_fails) (simp only: ns_def [symmetric] n nat_int)
qed

lemmas driver_eval =
  deep_lift_shap_def loop_body_def run_batch_def batch_inputs_def rows_at_def pairs_at_def
  make_references_def explain_batch_def DeepLiftShap_init_def isinstance_def issubclass_def
  attribute_def try_block_def register_hooks_unfold pairwise_model_def toy_grad_def
  check_convergence_def convergence_deltas_def column0_def chunk_def sub_chunks1_def
  broadcast1_def sum_dims12_def tensor_mul_def tensor_sub_def project_batch_def
  hypothetical_attributions_def check_input_def first_shape_def shape_def hyp_step_def
  zeros_like_def fill_channel_def sum_dim1_def set_channel_def first_tensor_def
  stack_mean_def stack_def mean_seq_def regroup_def initial_state_def no_hooks_def
  elementwise_def first_refs_def cat_def shift_generator_def Let_def average_refs.simps

theorem deep_lift_shap_reference_tensor_witness:
  "length [[[[0]]]] < length ([[[1]], [[2]]] :: tensor) \<and>
   isl (deep_lift_shap (pairwise_model (Node 0 Linear []) toy_grad) initial_state (0 :: int)
     [[[1]], [[2]]] None (RefTensor [[[[0]]]]) 20 32 True True (1 / 1000) False NoSeed)"
  using deep_lift_shap_reference_tensor [of "[[[[0]]]]" "[[[1]], [[2]]]"
      "pairwise_model (Node 0 Linear []) toy_grad" initial_state "0 :: int" None 20 32 True True
      "1 / 1000" False NoSeed]
  by simp

text \<open>
  The claim as stated fails: a tensor with more rows than \<^verbatim>\<open>X\<close> has examples, here of
  shape \<open>(2, 1, 1, 1)\<close> for one example, is accepted; the surplus rows are never read.
\<close>

theorem deep_lift_shap_reference_tensor_counterexample:
  "length [[[[0]]], [[[5]]]] \<noteq> length ([[[1]]] :: tensor) \<and>
   deep_lift_shap (pairwise_model (Node 0 Linear []) toy_grad) initial_state (0 :: int)
     [[[1]]] None (RefTensor [[[[0]]], [[[5]]]]) 20 32 True True (1 / 1000) False NoSeed =
   Inr ([[[2]]], Some [[[[0]]]])"
  by (simp add: driver_eval)

section \<open>Seeds and batch sizes\<close>

lemma rect_lengths: "rect a l x \<Longrightarrow> map length x = replicate a l"
  by (auto simp: rect_def list_all_length intro!: nth_equalityI)

lemma rect_iff_lengths: "rect a l x \<longleftrightarrow> map length x = replicate a l"
proof
  assume "map length x = replicate a l"
  then have "length x = a" and "\<And>i. i < length x \<Longrightarrow> length (x ! i) = l"
    by (metis length_map length_replicate, metis length_map nth_map nth_replicate length_replicate)
  then show "rect a l x" by (simp add: rect_def list_all_length)
qed (rule rect_lengths)

lemma stack_rect:
  assumes "ss \<noteq> []" and "\<And>t. t \<in> set ss \<Longrightarrow> rect a l t"
  shows "stack ss = Inr ss"
proof -
  from assms(2) have "\<And>t. t \<in> set ss \<Longrightarrow> map length t = replicate a l"
    by (simp add: rect_lengths)
  with assms(1) show ?thesis
    by (cases ss) (auto simp: stack_def list_all_iff)
qed

lemma mean_seq_rect:
  assumes "ss \<noteq> []" and "\<And>t. t \<in> set ss \<Longrightarrow> rect a l t"
  shows "rect a l (mean_seq ss)"
proof -
  from assms have h: "rect a l (hd ss)" by simp
  then have "length (hd ss) = a" and "\<And>c. c < a \<Longrightarrow> length (hd ss ! c) = l"
    by (auto simp: rect_def list_all_length)
  then show ?thesis
    by (simp add: mean_seq_def rect_def list_all_length)
qed

lemma map2_mul_rect:
  assumes "rect a l x" and "rect a l y"
  shows "rect a l (map2 (map2 (*)) x y)"
  using assms by (auto simp: rect_def list_all_length)

lemma averaged_rect:
  assumes "0 < ns" and "\<And>i. rect a l (attr i)" and "rect a l (X ! e)"
  shows "rect a l (averaged ns hyp X attr e)"
proof -
  have "rect a l (mean_seq (map attr [e * ns..<e * ns + ns]))"
    using assms(1,2) by (intro mean_seq_rect) auto
  with assms(3) show ?thesis
    by (simp add: averaged_def Let_def map2_mul_rect)
qed

lemma average_refs_upto:
  assumes ns: "0 < ns" and attr: "\<And>i. rect a l (attr i)"
    and X: "\<And>e. e < length X \<Longrightarrow> rect a l (X ! e)"
  shows "z0 * ns \<le> c \<Longrightarrow> c \<le> length X * ns \<Longrightarrow>
         average_refs ns hyp X (z0, map attr [z0 * ns..<c], acc) =
           Inr (c div ns, map attr [c div ns * ns..<c],
                acc @ map (averaged ns hyp X attr) [z0..<c div ns])"
proof (induction "c div ns - z0" arbitrary: z0 acc)
  case 0
  from "0.prems"(1) ns have "z0 \<le> c div ns"
    by (simp add: less_eq_div_iff_mult_less_eq)
  with "0.hyps" have eq: "c div ns = z0" by simp
  then have "c < z0 * ns + ns"
    using ns by (metis add.commute dividend_less_div_times mult.commute)
  with "0.prems"(1) have "\<not> ns \<le> length (map attr [z0 * ns..<c])" by auto
  then show ?case
    by (subst average_refs.simps) (simp add: eq)
next
  case (Suc d)
  from Suc.hyps(2) have lt: "z0 < c div ns" by simp
  then have full: "z0 * ns + ns \<le> c"
    using ns by (metis Suc_leI add.commute less_eq_div_iff_mult_less_eq mult_Suc)
  then have len: "ns \<le> length (map attr [z0 * ns..<c])" by simp
  have tk: "take ns (map attr [z0 * ns..<c]) = map attr [z0 * ns..<z0 * ns + ns]"
    using full by (simp add: take_map take_upt)
  have dr: "drop ns (map attr [z0 * ns..<c]) = map attr [Suc z0 * ns..<c]"
    by (simp add: drop_map drop_upt add.commute)
  have zX: "z0 < length X"
  proof -
    from full Suc.prems(2) have "z0 * ns + ns \<le> length X * ns" by simp
    then have "Suc z0 * ns \<le> length X * ns" by (simp add: add.commute)
    with ns have "Suc z0 \<le> length X" by (simp only: mult_le_cancel2)
    then show ?thesis by simp
  qed
  have sm: "stack_mean (map attr [z0 * ns..<z0 * ns + ns]) =
            Inr (mean_seq (map attr [z0 * ns..<z0 * ns + ns]))"
  proof -
    have "stack (map attr [z0 * ns..<z0 * ns + ns]) = Inr (map attr [z0 * ns..<z0 * ns + ns])"
      using ns attr by (intro stack_rect [where a = a and l = l]) auto
    then show ?thesis by (simp add: stack_mean_def)
  qed
  have mr: "rect a l (mean_seq (map attr [z0 * ns..<z0 * ns + ns]))"
    using ns attr by (intro mean_seq_rect) auto
  have ew: "elementwise (*) (mean_seq (map attr [z0 * ns..<z0 * ns + ns])) (X ! z0) =
            Inr (map2 (map2 (*)) (mean_seq (map attr [z0 * ns..<z0 * ns + ns])) (X ! z0))"
    using rect_lengths [OF mr] rect_lengths [OF X [OF zX]] by (simp add: elementwise_def)
  have step: "average_refs ns hyp X (z0, map attr [z0 * ns..<c], acc) =
        average_refs ns hyp X (Suc z0, map attr [Suc z0 * ns..<c],
          acc @ [averaged ns hyp X attr z0])"
    using ns len zX
    by (subst average_refs.simps) (simp add: tk dr sm ew averaged_def Let_def del: mult_Suc)
  have d: "d = c div ns - Suc z0" using Suc.hyps(2) by simp
  have le: "Suc z0 * ns \<le> c" using full by (simp add: add.commute)
  have up: "[z0..<c div ns] = z0 # [Suc z0..<c div ns]"
    using lt by (simp add: upt_conv_Cons)
  show ?case
    unfolding step Suc.hyps(1) [OF d le Suc.prems(2)] up by simp
qed

lemma rows_at_map:
  "(\<And>i. i \<in> set js \<Longrightarrow> e i < length t) \<Longrightarrow>
   rows_at t (map e js) = Inr (map (\<lambda>i. t ! e i) js)"
  by (simp add: rows_at_def list_all_iff comp_def)

lemma args_at_map:
  "(\<And>a k. a \<in> set as \<Longrightarrow> k \<in> set idx \<Longrightarrow> k < length a) \<Longrightarrow>
   args_at as idx = Inr (map (\<lambda>a. map (\<lambda>k. a ! k) idx) as)"
  by (induction as) (simp_all add: rows_at_def list_all_iff)

lemma first_refs_single: "first_refs [[r]] = Inr [r]"
  by (simp add: first_refs_def)

lemma seeded_refs_map:
  assumes "seeded_by f \<rho>"
  shows "\<exists>g1. seeded_refs f s (map x js) (map j js) g =
               (Inr (map (\<lambda>i. [\<rho> (x i) (s + int (j i))]) js), g1)"
proof (induction js arbitrary: g)
  case Nil
  show ?case by simp
next
  case (Cons i js)
  obtain g1 where f: "f [x i] 1 (Some (s + int (j i))) g = (Inr [[\<rho> (x i) (s + int (j i))]], g1)"
    using assms unfolding seeded_by_def
    by (metis fst_conv surj_pair)
  from Cons [of g1] obtain g2 where
    "seeded_refs f s (map x js) (map j js) g1 =
       (Inr (map (\<lambda>i. [\<rho> (x i) (s + int (j i))]) js), g2)" ..
  with f show ?case by (simp add: first_refs_single)
qed

lemma shape_single: "rect a l r \<Longrightarrow> snd (shape [r]) = (a, if a = 0 then 0 else l)"
  by (cases r) (auto simp: shape_def rect_def)

lemma cat_singles:
  assumes "js \<noteq> []" and "\<And>i. i \<in> set js \<Longrightarrow> rect a l (r i)"
  shows "cat (map (\<lambda>i. [r i]) js) = Inr (map r js)"
proof -
  have "concat (map (\<lambda>i. [r i]) js) = map r js" by (induction js) simp_all
  moreover have "list_all (\<lambda>u. snd (shape u) = (a, if a = 0 then 0 else l)) (map (\<lambda>i. [r i]) js)"
    using assms(2) by (simp add: list_all_iff shape_single)
  ultimately show ?thesis
    using assms(1) by (cases js) (simp_all add: cat_def list_all_iff)
qed

lemma fire_all_accepts:
  "list_all accepts_hooks evs \<Longrightarrow> \<exists>st1. fire_all evs st = (None, st1)"
proof (induction evs arbitrary: st)
  case Nil
  show ?case by simp
next
  case (Cons ev evs)
  then have "\<exists>st1. fire ev st = Inr st1"
    by (cases ev)
       (auto simp: fire_def accepts_hooks_def forward_pre_hook_def forward_hook_def
          split: list.splits)
  then obtain st1 where "fire ev st = Inr st1" ..
  with Cons show ?case by simp
qed

lemma chunk_even:
  "length v = 2 * m \<Longrightarrow> chunk v = [take m v, drop m v]"
  by (cases "m = 0") (auto simp: chunk_def Let_def)

lemma convergence_deltas_defined:
  assumes "length outs = 2 * m" and "list_all (\<lambda>row. row \<noteq> []) outs"
    and "length inputs = m" and "length baselines = m" and "length grads = m"
  shows "\<exists>d. convergence_deltas inputs baselines outs grads = Inr d"
proof -
  have c0: "column0 outs = Inr (map hd outs)"
    using assms(2) by (simp add: column0_def list_all_iff list_ex_iff)
  have ch: "chunk (map hd outs) = [take m (map hd outs), drop m (map hd outs)]"
    using assms(1) by (intro chunk_even) simp
  have sc: "sub_chunks1 [take m (map hd outs), drop m (map hd outs)] =
            Inr (map2 (-) (take m (map hd outs)) (drop m (map hd outs)))"
    using assms(1) by (simp add: sub_chunks1_def broadcast1_def)
  let ?D = "map2 (-) (take m (map hd outs)) (drop m (map hd outs))"
  let ?I = "sum_dims12 (tensor_mul (tensor_sub inputs baselines) grads)"
  have sc': "sub_chunks1 (chunk (map hd outs)) = Inr ?D"
    by (simp only: ch sc)
  have "length ?D = length ?I"
    using assms(1,3-5) by (simp add: sum_dims12_def tensor_mul_def tensor_sub_def)
  then have bc: "broadcast1 (-) ?D ?I = Inr (map2 (-) ?D ?I)"
    unfolding broadcast1_def by (rule if_P)
  show ?thesis
    by (simp only: convergence_deltas_def c0 sc' bc Let_def sum.case) blast
qed

lemma attribute_batchwise:
  assumes bw: "batchwise (model self) grad_of"
    and sh: "shape X' = shape refs'"
    and reg: "fst (apply_fn register_hooks (tree (model self)) (self, st)) = None"
  shows "\<exists>self1 st1. attribute self st X' refs' args' =
           (Inr (map (\<lambda>k. grad_of (X' ! k) (refs' ! k) (map_option (map (\<lambda>a. (a @ a) ! k)) args'))
                  [0..<length X']), self1, st1)"
proof -
  from sh have len: "length X' = length refs'" by (simp add: shape_def)
  from reg obtain selfA stA
    where ap: "apply_fn register_hooks (tree (model self)) (self, st) = (None, selfA, stA)"
    by (cases "apply_fn register_hooks (tree (model self)) (self, st)") auto
  define r where "r = forward_backward (model self) stA (X' @ refs')
               (map_option (map (\<lambda>arg. arg @ arg)) args')"
  let ?grads = "map (\<lambda>k. grad_of (X' ! k) (refs' ! k) (map_option (map (\<lambda>a. (a @ a) ! k)) args'))
                  [0..<length X']"
  have mc: "map_option (map (\<lambda>a. a ! k)) (map_option (map (\<lambda>arg. arg @ arg)) args') =
            map_option (map (\<lambda>a. (a @ a) ! k)) args'" for k
    by (simp add: option.map_comp comp_def)
  note b = bw [unfolded batchwise_def, rule_format, OF len, of stA
      "map_option (map (\<lambda>arg. arg @ arg)) args'", folded r_def, unfolded mc]
  from b have acc: "list_all accepts_hooks (calls r)" by (rule conjunct1)
  from b obtain outs where outs: "length outs = 2 * length X'" "list_all (\<lambda>row. row \<noteq> []) outs"
    and oc: "outcome r = Inr (outs, ?grads)" by blast
  from fire_all_accepts [OF acc] obtain stB where fa: "fire_all (calls r) stA = (None, stB)" ..
  have "length ?grads = length X'" by simp
  from convergence_deltas_defined [OF outs refl len [symmetric] this]
  obtain d where d: "convergence_deltas X' refs' outs ?grads = Inr d" ..
  obtain stC where cc: "check_convergence selfA stB X' refs' outs ?grads = (Inr ?grads, stC)"
    by (simp add: check_convergence_def d Let_def)
  have "try_block self st X' refs' args' = (Inr ?grads, selfA, stC)"
    unfolding try_block_unfold [OF ap r_def fa] by (simp add: oc cc)
  from attribute_unfold [OF sh this] show ?thesis by blast
qed

lemma explain_batch_batchwise:
  assumes bw: "batchwise mdl grad_of"
    and nomax: "\<not> list_ex (\<lambda>m. issubclass (kind m) MaxPoolNd) (named_modules (tree mdl))"
    and sh: "shape X' = shape refs'"
    and nb: "\<not> blocked [ReLU] st (tree mdl)"
  shows "\<exists>st1. explain_batch mdl thr pcd st X' refs' args' =
           Inr (map (\<lambda>k. grad_of (X' ! k) (refs' ! k) (map_option (map (\<lambda>a. (a @ a) ! k)) args'))
                  [0..<length X'], st1) \<and>
           \<not> blocked [ReLU] st1 (tree mdl)"
proof -
  let ?engine = "\<lparr> model = mdl, ignore_layers = [ReLU], eps = 1 / 1000000,
                 warning_threshold = thr, verbose = pcd,
                 forward_handles = [], backward_handles = [] \<rparr>"
  have init: "DeepLiftShap_init mdl [ReLU] (1 / 1000000) thr pcd = Inr ?engine"
    using nomax by (simp add: DeepLiftShap_init_eq)
  have bw': "batchwise (model ?engine) grad_of" using bw by simp
  have nb': "\<not> blocked (ignore_layers ?engine) st (tree (model ?engine))" using nb by simp
  have h: "forward_handles ?engine = []" "backward_handles ?engine = []" by simp_all
  from apply_register_hooks_unblocked [OF nb' h]
  have reg: "fst (apply_fn register_hooks (tree (model ?engine)) (?engine, st)) = None" ..
  from attribute_batchwise [OF bw' sh reg, of args'] obtain self1 st1
    where at: "attribute ?engine st X' refs' args' =
      (Inr (map (\<lambda>k. grad_of (X' ! k) (refs' ! k) (map_option (map (\<lambda>a. (a @ a) ! k)) args'))
                  [0..<length X']), self1, st1)"
    by blast
  from attribute_stays_unblocked [OF nb' h at] have "\<not> blocked [ReLU] st1 (tree mdl)" by simp
  with at show ?thesis
    unfolding explain_batch_def init by simp
qed

lemma explain_batch_blocked:
  assumes b: "blocked [ReLU] st (tree mdl)"
    and nomax: "\<not> list_ex (\<lambda>m. issubclass (kind m) MaxPoolNd) (named_modules (tree mdl))"
    and sh: "shape X' = shape refs'"
  shows "explain_batch mdl thr pcd st X' refs' args' = Inl RuntimeError"
proof -
  let ?engine = "\<lparr> model = mdl, ignore_layers = [ReLU], eps = 1 / 1000000,
                 warning_threshold = thr, verbose = pcd,
                 forward_handles = [], backward_handles = [] \<rparr>"
  have init: "DeepLiftShap_init mdl [ReLU] (1 / 1000000) thr pcd = Inr ?engine"
    using nomax by (simp add: DeepLiftShap_init_eq)
  have b': "blocked (ignore_layers ?engine) st (tree (model ?engine))" using b by simp
  have h: "forward_handles ?engine = []" "backward_handles ?engine = []" by simp_all
  obtain res self1 st1 where at: "attribute ?engine st X' refs' args' = (res, self1, st1)"
    by (cases "attribute ?engine st X' refs' args'")
  with attribute_blocked [OF b' h sh, of args'] have "res = Inl RuntimeError" by simp
  with at show ?thesis
    unfolding explain_batch_def init by simp
qed

lemma tab3_projection:
  "tab3 n a l (projection R M a) = map (\<lambda>k. proj_seq a l (R ! k) (M ! k)) [0..<n]"
  by (simp add: tab3_def proj_seq_def projection_def)

lemma is_tensor_iff:
  "is_tensor (n, a, l) t \<longleftrightarrow> length t = n \<and> (\<forall>x\<in>set t. rect a l x)"
  by (simp add: is_tensor_def rect_def list_all_iff)

lemma project_batch_tab3:
  assumes "is_tensor (n, a, l) grads" and "is_tensor (n, a, l) X'" and "is_tensor (n, a, l) refs'"
  shows "project_batch grads X' refs' =
           Inr (map (\<lambda>k. proj_seq a l (refs' ! k) (grads ! k)) [0..<n])"
  using hypothetical_attributions_tab3(1) [OF assms]
  by (simp add: project_batch_def first_tensor_def tab3_projection)

lemma shape_is_tensor:
  assumes "is_tensor (n, a, l) t" and "is_tensor (n, a, l) u"
  shows "shape t = shape u"
  using is_tensor_tab3 [OF assms(1)] is_tensor_tab3 [OF assms(2)] shape_tab3
  by metis

lemma proj_seq_rect: "rect a l (proj_seq a l r m)"
  by (simp add: proj_seq_def rect_def list_all_length)

lemma pair_attr_rect: "rect a l (pair_attr grad_of \<rho> s0 X args ns a l i)"
  by (simp add: pair_attr_def proj_seq_rect)

lemma div_less_of_less_mult:
  fixes i :: nat
  assumes "i < n * ns"
  shows "i div ns < n"
  using assms by (simp add: less_mult_imp_div_less)

lemma batch_inputs_seeded:
  assumes sd: "seeded_by f \<rho>"
    and X: "is_tensor (n, a, l) X"
    and rho: "\<And>x k. rect a l x \<Longrightarrow> rect a l (\<rho> x k)"
    and args: "\<And>as. args = Some as \<Longrightarrow> list_all (\<lambda>arg. n \<le> length arg) as"
    and bc: "b < c" "c \<le> n * ns"
    and xi: "Xi s = map (\<lambda>i. i div ns) [b..<c]" and rj: "rj s = map (\<lambda>i. i mod ns) [b..<c]"
  shows "\<exists>g1. batch_inputs X args (RefFunc f) (IntSeed s0) s =
           Inr (map (\<lambda>i. X ! (i div ns)) [b..<c],
                map_option (map (\<lambda>arg. map (\<lambda>i. arg ! (i div ns)) [b..<c])) args,
                map (pair_ref \<rho> s0 X ns) [b..<c], g1)"
proof -
  from X have lenX: "length X = n" and rX: "\<And>e. e < n \<Longrightarrow> rect a l (X ! e)"
    by (auto simp: is_tensor_iff)
  have e: "i div ns < n" if "i \<in> set [b..<c]" for i
    using that bc(2) by (intro div_less_of_less_mult) simp
  have rows: "rows_at X (Xi s) = Inr (map (\<lambda>i. X ! (i div ns)) [b..<c])"
    unfolding xi using e by (intro rows_at_map) (simp add: lenX)
  have ar: "(case args of None \<Rightarrow> Inr None
             | Some as \<Rightarrow> (case args_at as (Xi s) of Inl e \<Rightarrow> Inl e | Inr as' \<Rightarrow> Inr (Some as'))) =
            Inr (map_option (map (\<lambda>arg. map (\<lambda>i. arg ! (i div ns)) [b..<c])) args)"
  proof (cases args)
    case None
    then show ?thesis by simp
  next
    case (Some as)
    have "args_at as (Xi s) = Inr (map (\<lambda>arg. map (\<lambda>k. arg ! k) (Xi s)) as)"
    proof (rule args_at_map)
      fix arg k assume "arg \<in> set as" "k \<in> set (Xi s)"
      with args [OF Some] e show "k < length arg"
        by (fastforce simp: xi list_all_iff)
    qed
    then show ?thesis by (simp add: Some xi comp_def)
  qed
  from seeded_refs_map [OF sd, of s0 "\<lambda>i. X ! (i div ns)" "[b..<c]" "\<lambda>i. i mod ns" "rng s"]
  obtain g1 where sr: "seeded_refs f s0 (map (\<lambda>i. X ! (i div ns)) [b..<c]) (rj s) (rng s) =
      (Inr (map (\<lambda>i. [pair_ref \<rho> s0 X ns i]) [b..<c]), g1)"
    unfolding rj pair_ref_def by blast
  have ct: "cat (map (\<lambda>i. [pair_ref \<rho> s0 X ns i]) [b..<c]) = Inr (map (pair_ref \<rho> s0 X ns) [b..<c])"
  proof (rule cat_singles [where a = a and l = l])
    show "[b..<c] \<noteq> []" using bc(1) by simp
    show "rect a l (pair_ref \<rho> s0 X ns i)" if "i \<in> set [b..<c]" for i
      unfolding pair_ref_def using e [OF that] by (intro rho rX)
  qed
  show ?thesis
    unfolding batch_inputs_def rows ar
    by (simp add: make_references_def sr ct)
qed

lemma upt_split: "i \<le> j \<Longrightarrow> j \<le> k \<Longrightarrow> [i..<j] @ [j..<k] = [i..<k]"
  by (metis le_add_diff_inverse upt_add_eq_append)

lemma map_upt_split: "i \<le> j \<Longrightarrow> j \<le> k \<Longrightarrow> map f [i..<j] @ map f [j..<k] = map f [i..<k]"
  by (simp only: map_append [symmetric] upt_split)

lemma map_upt_reindex:
  "map (\<lambda>k. F ([b..<c] ! k)) [0..<c - b] = map F [b..<c]"
  by (rule nth_equalityI) simp_all

lemma run_batch_seeded:
  fixes \<rho> :: "seq \<Rightarrow> int \<Rightarrow> seq" and s0 :: int and X :: tensor and ns a l :: nat
    and grad_of :: "seq \<Rightarrow> seq \<Rightarrow> real list list option \<Rightarrow> seq"
    and args :: "activation list option" and hyp :: bool
  defines "ref \<equiv> pair_ref \<rho> s0 X ns"
    and "attr \<equiv> pair_attr grad_of \<rho> s0 X args ns a l"
    and "ex \<equiv> averaged ns hyp X (pair_attr grad_of \<rho> s0 X args ns a l)"
  assumes sd: "seeded_by f \<rho>"
    and X: "is_tensor (n, a, l) X"
    and rho: "\<And>x k. rect a l x \<Longrightarrow> rect a l (\<rho> x k)"
    and args: "\<And>as. args = Some as \<Longrightarrow> list_all (\<lambda>arg. n \<le> length arg) as"
    and bw: "batchwise mdl grad_of"
    and nomax: "\<not> list_ex (\<lambda>m. issubclass (kind m) MaxPoolNd) (named_modules (tree mdl))"
    and grad: "\<And>x r ar. rect a l x \<Longrightarrow> rect a l r \<Longrightarrow> rect a l (grad_of x r ar)"
    and ns: "0 < ns"
    and bc: "b < c" "c \<le> n * ns"
    and pend: "pending ns rr attr ex ref b c s"
  shows "blocked [ReLU] (torch s) (tree mdl) \<Longrightarrow>
         run_batch mdl X args (RefFunc f) ns rr hyp thr pcd (IntSeed s0) s = Inl RuntimeError"
    and "\<not> blocked [ReLU] (torch s) (tree mdl) \<Longrightarrow>
         \<exists>s1. run_batch mdl X args (RefFunc f) ns rr hyp thr pcd (IntSeed s0) s = Inr s1 \<and>
              pending ns rr attr ex ref c c s1 \<and> \<not> blocked [ReLU] (torch s1) (tree mdl)"
proof -
  from X have lenX: "length X = n" and rX: "\<And>e. e < n \<Longrightarrow> rect a l (X ! e)"
    by (auto simp: is_tensor_iff)
  from pend have xi: "Xi s = map (\<lambda>i. i div ns) [b..<c]" and rj: "rj s = map (\<lambda>i. i mod ns) [b..<c]"
    and zs: "z s = b div ns" and at: "attr' s = map attr [b div ns * ns..<b]"
    and ab: "attributions s = map ex [0..<b div ns]"
    and rf: "references' s = (if rr then map ref [0..<b] else [])"
    by (simp_all add: pending_def)
  let ?X' = "map (\<lambda>i. X ! (i div ns)) [b..<c]"
  let ?args' = "map_option (map (\<lambda>arg. map (\<lambda>i. arg ! (i div ns)) [b..<c])) args"
  let ?refs' = "map ref [b..<c]"
  let ?m = "c - b"
  from batch_inputs_seeded [OF sd X rho args bc xi rj, where ?s0.0 = s0]
  obtain g1 where bi: "batch_inputs X args (RefFunc f) (IntSeed s0) s = Inr (?X', ?args', ?refs', g1)"
    unfolding ref_def by blast
  have e: "i div ns < n" if "i \<in> set [b..<c]" for i
    using that bc(2) by (intro div_less_of_less_mult) simp
  have tX: "is_tensor (?m, a, l) ?X'"
    using e rX by (auto simp: is_tensor_iff)
  have rref: "rect a l (ref i)" if "i \<in> set [b..<c]" for i
    unfolding ref_def pair_ref_def using e [OF that] by (intro rho rX)
  then have tR: "is_tensor (?m, a, l) ?refs'"
    by (auto simp: is_tensor_iff)
  let ?g = "\<lambda>k. grad_of (?X' ! k) (?refs' ! k) (map_option (map (\<lambda>arg. (arg @ arg) ! k)) ?args')"
  show "run_batch mdl X args (RefFunc f) ns rr hyp thr pcd (IntSeed s0) s = Inl RuntimeError"
    if "blocked [ReLU] (torch s) (tree mdl)"
    unfolding run_batch_def bi
    by (simp add: explain_batch_blocked [OF that nomax shape_is_tensor [OF tX tR]])
  assume nb: "\<not> blocked [ReLU] (torch s) (tree mdl)"
  from explain_batch_batchwise [OF bw nomax shape_is_tensor [OF tX tR] nb, of thr pcd ?args']
  obtain st1 where ex1: "explain_batch mdl thr pcd (torch s) ?X' ?refs' ?args' =
      Inr (map ?g [0..<?m], st1)"
    and nb1: "\<not> blocked [ReLU] st1 (tree mdl)"
    by auto
  have gk: "?g k = grad_of (X ! (([b..<c] ! k) div ns)) (ref ([b..<c] ! k))
                     (pair_args args (([b..<c] ! k) div ns))" if "k < ?m" for k
  proof -
    have "map_option (map (\<lambda>arg. (arg @ arg) ! k)) ?args' = pair_args args (([b..<c] ! k) div ns)"
      using that by (cases args) (simp_all add: pair_args_def nth_append comp_def)
    with that show ?thesis by simp
  qed
  have gr: "rect a l (?g k)" if "k < ?m" for k
  proof -
    from that have "[b..<c] ! k \<in> set [b..<c]" by (intro nth_mem) simp
    from e [OF this] rref [OF this] rX show ?thesis
      unfolding gk [OF that] by (intro grad) simp_all
  qed
  then have tG: "is_tensor (?m, a, l) (map ?g [0..<?m])"
    by (auto simp: is_tensor_iff)
  have pk: "proj_seq a l (?refs' ! k) (map ?g [0..<?m] ! k) = attr ([b..<c] ! k)" if "k < ?m" for k
    using that gk [OF that] by (simp add: attr_def pair_attr_def ref_def)
  have "project_batch (map ?g [0..<?m]) ?X' ?refs' =
          Inr (map (\<lambda>k. proj_seq a l (?refs' ! k) (map ?g [0..<?m] ! k)) [0..<?m])"
    by (rule project_batch_tab3 [OF tG tX tR])
  also have "map (\<lambda>k. proj_seq a l (?refs' ! k) (map ?g [0..<?m] ! k)) [0..<?m] =
             map (\<lambda>k. attr ([b..<c] ! k)) [0..<?m]"
    using pk by simp
  also have "\<dots> = map attr [b..<c]" by (rule map_upt_reindex)
  finally have pb: "project_batch (map ?g [0..<?m]) ?X' ?refs' = Inr (map attr [b..<c])" .
  have le: "b div ns * ns \<le> b" by simp
  have jn: "attr' s @ map attr [b..<c] = map attr [b div ns * ns..<c]"
    unfolding at using le bc(1) by (intro map_upt_split) simp_all
  have av: "average_refs ns hyp X (b div ns, map attr [b div ns * ns..<c], map ex [0..<b div ns]) =
      Inr (c div ns, map attr [c div ns * ns..<c],
           map ex [0..<b div ns] @ map ex [b div ns..<c div ns])"
    unfolding ex_def attr_def
  proof (rule average_refs_upto [where a = a and l = l, OF ns])
    show "rect a l (pair_attr grad_of \<rho> s0 X args ns a l i)" for i by (rule pair_attr_rect)
    show "rect a l (X ! e)" if "e < length X" for e using that rX lenX by simp
    show "b div ns * ns \<le> c" using le bc(1) by linarith
    show "c \<le> length X * ns" using bc(2) lenX by simp
  qed
  have dm: "b div ns \<le> c div ns" using bc(1) by (intro div_le_mono) simp
  have exs: "map ex [0..<b div ns] @ map ex [b div ns..<c div ns] = map ex [0..<c div ns]"
    using dm by (intro map_upt_split) simp_all
  have rfs: "(if rr then references' s @ ?refs' else references' s) =
             (if rr then map ref [0..<c] else [])"
    unfolding rf using bc(1) by (simp add: map_upt_split)
  show "\<exists>s1. run_batch mdl X args (RefFunc f) ns rr hyp thr pcd (IntSeed s0) s = Inr s1 \<and>
              pending ns rr attr ex ref c c s1 \<and> \<not> blocked [ReLU] (torch s1) (tree mdl)"
    unfolding run_batch_def bi
    by (simp add: ex1 nb1 pb zs ab jn av exs rfs pending_def)
qed

lemma run_batch_ok:
  assumes ws: "well_set f \<rho> mdl grad_of X args n a l"
    and ns: "0 < ns" and bc: "b < c" "c \<le> n * ns"
    and pend: "pending ns rr (pair_attr grad_of \<rho> s0 X args ns a l)
        (averaged ns hyp X (pair_attr grad_of \<rho> s0 X args ns a l)) (pair_ref \<rho> s0 X ns) b c s"
  shows "blocked [ReLU] (torch s) (tree mdl) \<Longrightarrow>
         run_batch mdl X args (RefFunc f) ns rr hyp thr pcd (IntSeed s0) s = Inl RuntimeError"
    and "\<not> blocked [ReLU] (torch s) (tree mdl) \<Longrightarrow>
         \<exists>s1. run_batch mdl X args (RefFunc f) ns rr hyp thr pcd (IntSeed s0) s = Inr s1 \<and>
           pending ns rr (pair_attr grad_of \<rho> s0 X args ns a l)
             (averaged ns hyp X (pair_attr grad_of \<rho> s0 X args ns a l)) (pair_ref \<rho> s0 X ns) c c s1 \<and>
           \<not> blocked [ReLU] (torch s1) (tree mdl)"
proof -
  from ws have 1: "seeded_by f \<rho>" "is_tensor (n, a, l) X" "batchwise mdl grad_of"
    "\<not> list_ex (\<lambda>m. issubclass (kind m) MaxPoolNd) (named_modules (tree mdl))"
    by (simp_all add: well_set_def)
  from ws have 2: "rect a l (\<rho> x k)" if "rect a l x" for x k
    using that by (simp add: well_set_def)
  from ws have 3: "list_all (\<lambda>arg. n \<le> length arg) as" if "args = Some as" for as
    using that by (simp add: well_set_def)
  from ws have 4: "rect a l (grad_of x r ar)" if "rect a l x" "rect a l r" for x r ar
    using that by (simp add: well_set_def)
  show "run_batch mdl X args (RefFunc f) ns rr hyp thr pcd (IntSeed s0) s = Inl RuntimeError"
    if "blocked [ReLU] (torch s) (tree mdl)"
    by (rule run_batch_seeded(1) [OF 1(1,2) 2 3 1(3,4) 4 ns bc pend that])
  show "\<exists>s1. run_batch mdl X args (RefFunc f) ns rr hyp thr pcd (IntSeed s0) s = Inr s1 \<and>
           pending ns rr (pair_attr grad_of \<rho> s0 X args ns a l)
             (averaged ns hyp X (pair_attr grad_of \<rho> s0 X args ns a l)) (pair_ref \<rho> s0 X ns) c c s1 \<and>
           \<not> blocked [ReLU] (torch s1) (tree mdl)"
    if "\<not> blocked [ReLU] (torch s) (tree mdl)"
    by (rule run_batch_seeded(2) [OF 1(1,2) 2 3 1(3,4) 4 ns bc pend that])
qed

lemma loop_body_ok:
  assumes ws: "well_set f \<rho> mdl grad_of X args n a l"
    and ns: "0 < ns" and bi: "b \<le> i" "i < n * ns"
    and pend: "pending ns rr (pair_attr grad_of \<rho> s0 X args ns a l)
        (averaged ns hyp X (pair_attr grad_of \<rho> s0 X args ns a l)) (pair_ref \<rho> s0 X ns) b i s"
    and nb: "\<not> blocked [ReLU] (torch s) (tree mdl)"
  shows "\<exists>s1 b1. loop_body mdl X args (RefFunc f) (int ns) bs rr hyp thr pcd (IntSeed s0)
                    (int (n * ns)) i s = Inr s1 \<and>
           b1 \<le> Suc i \<and> (Suc i = n * ns \<longrightarrow> b1 = Suc i) \<and>
           pending ns rr (pair_attr grad_of \<rho> s0 X args ns a l)
             (averaged ns hyp X (pair_attr grad_of \<rho> s0 X args ns a l)) (pair_ref \<rho> s0 X ns)
             b1 (Suc i) s1 \<and>
           \<not> blocked [ReLU] (torch s1) (tree mdl)"
proof -
  let ?s1 = "s\<lparr>Xi := Xi s @ [nat (int i div int ns)], rj := rj s @ [nat (int i mod int ns)]\<rparr>"
  have dm: "nat (int i div int ns) = i div ns" "nat (int i mod int ns) = i mod ns"
    by (simp_all add: zdiv_int [symmetric] zmod_int [symmetric])
  have p1: "pending ns rr (pair_attr grad_of \<rho> s0 X args ns a l)
        (averaged ns hyp X (pair_attr grad_of \<rho> s0 X args ns a l)) (pair_ref \<rho> s0 X ns) b (Suc i) ?s1"
    using pend bi(1) by (simp add: pending_def dm)
  have nb1: "\<not> blocked [ReLU] (torch ?s1) (tree mdl)" using nb by simp
  show ?thesis
  proof (cases "int (length (Xi ?s1)) = bs \<or> int i = int (n * ns) - 1")
    case True
    then have lb: "loop_body mdl X args (RefFunc f) (int ns) bs rr hyp thr pcd (IntSeed s0)
                    (int (n * ns)) i s =
        run_batch mdl X args (RefFunc f) ns rr hyp thr pcd (IntSeed s0) ?s1"
      by (simp add: loop_body_def Let_def)
    from run_batch_ok(2) [OF ws ns _ _ p1 nb1, where thr = thr and pcd = pcd] bi
    obtain s2 where "run_batch mdl X args (RefFunc f) ns rr hyp thr pcd (IntSeed s0) ?s1 = Inr s2"
      and "pending ns rr (pair_attr grad_of \<rho> s0 X args ns a l)
        (averaged ns hyp X (pair_attr grad_of \<rho> s0 X args ns a l)) (pair_ref \<rho> s0 X ns)
        (Suc i) (Suc i) s2"
      and "\<not> blocked [ReLU] (torch s2) (tree mdl)"
      by auto
    then show ?thesis unfolding lb by blast
  next
    case False
    then have lb: "loop_body mdl X args (RefFunc f) (int ns) bs rr hyp thr pcd (IntSeed s0)
                    (int (n * ns)) i s = Inr ?s1"
      by (simp add: loop_body_def Let_def)
    have "Suc i \<noteq> n * ns"
    proof
      assume "Suc i = n * ns"
      then have "int i = int (n * ns) - 1" by linarith
      with False show False by simp
    qed
    with p1 nb1 bi(1) show ?thesis unfolding lb by (intro exI [of _ ?s1] exI [of _ b]) simp
  qed
qed

lemma for_loop_ok:
  assumes ws: "well_set f \<rho> mdl grad_of X args n a l" and ns: "0 < ns"
  shows "b \<le> i \<Longrightarrow> i \<le> n * ns \<Longrightarrow> (i = n * ns \<longrightarrow> b = i) \<Longrightarrow>
         pending ns rr (pair_attr grad_of \<rho> s0 X args ns a l)
           (averaged ns hyp X (pair_attr grad_of \<rho> s0 X args ns a l)) (pair_ref \<rho> s0 X ns) b i s \<Longrightarrow>
         \<not> blocked [ReLU] (torch s) (tree mdl) \<Longrightarrow>
         \<exists>s1. for_loop (loop_body mdl X args (RefFunc f) (int ns) bs rr hyp thr pcd (IntSeed s0)
                          (int (n * ns))) [i..<n * ns] s = Inr s1 \<and>
           pending ns rr (pair_attr grad_of \<rho> s0 X args ns a l)
             (averaged ns hyp X (pair_attr grad_of \<rho> s0 X args ns a l)) (pair_ref \<rho> s0 X ns)
             (n * ns) (n * ns) s1"
proof (induction "n * ns - i" arbitrary: b i s)
  case 0
  then have "i = n * ns" by simp
  with 0 show ?case by simp
next
  case (Suc d)
  then have lt: "i < n * ns" by simp
  from loop_body_ok [OF ws ns Suc.prems(1) lt Suc.prems(4,5), where bs = bs and thr = thr
      and pcd = pcd]
  obtain s1 b1 where lb: "loop_body mdl X args (RefFunc f) (int ns) bs rr hyp thr pcd (IntSeed s0)
                    (int (n * ns)) i s = Inr s1"
    and b1: "b1 \<le> Suc i" "Suc i = n * ns \<longrightarrow> b1 = Suc i"
    and p: "pending ns rr (pair_attr grad_of \<rho> s0 X args ns a l)
             (averaged ns hyp X (pair_attr grad_of \<rho> s0 X args ns a l)) (pair_ref \<rho> s0 X ns)
             b1 (Suc i) s1"
    and nb1: "\<not> blocked [ReLU] (torch s1) (tree mdl)"
    by blast
  have d: "d = n * ns - Suc i" using Suc.hyps(2) by simp
  have up: "[i..<n * ns] = i # [Suc i..<n * ns]" using lt by (simp add: upt_conv_Cons)
  from lt have "Suc i \<le> n * ns" by simp
  from Suc.hyps(1) [OF d b1(1) this b1(2) p nb1] show ?case
    unfolding up by (simp only: for_loop.simps lb sum.case)
qed

lemma for_loop_blocked:
  assumes ws: "well_set f \<rho> mdl grad_of X args n a l" and ns: "0 < ns"
  shows "b \<le> i \<Longrightarrow> i < n * ns \<Longrightarrow>
         pending ns rr (pair_attr grad_of \<rho> s0 X args ns a l)
           (averaged ns hyp X (pair_attr grad_of \<rho> s0 X args ns a l)) (pair_ref \<rho> s0 X ns) b i s \<Longrightarrow>
         blocked [ReLU] (torch s) (tree mdl) \<Longrightarrow>
         for_loop (loop_body mdl X args (RefFunc f) (int ns) bs rr hyp thr pcd (IntSeed s0)
                     (int (n * ns))) [i..<n * ns] s = Inl RuntimeError"
proof (induction "n * ns - i" arbitrary: i s)
  case 0
  then show ?case by simp
next
  case (Suc d)
  let ?s1 = "s\<lparr>Xi := Xi s @ [nat (int i div int ns)], rj := rj s @ [nat (int i mod int ns)]\<rparr>"
  have dm: "nat (int i div int ns) = i div ns" "nat (int i mod int ns) = i mod ns"
    by (simp_all add: zdiv_int [symmetric] zmod_int [symmetric])
  have p1: "pending ns rr (pair_attr grad_of \<rho> s0 X args ns a l)
        (averaged ns hyp X (pair_attr grad_of \<rho> s0 X args ns a l)) (pair_ref \<rho> s0 X ns) b (Suc i) ?s1"
    using Suc.prems(1,3) by (simp add: pending_def dm)
  have b1: "blocked [ReLU] (torch ?s1) (tree mdl)" using Suc.prems(4) by simp
  have up: "[i..<n * ns] = i # [Suc i..<n * ns]" using Suc.prems(2) by (simp add: upt_conv_Cons)
  show ?case
  proof (cases "int (length (Xi ?s1)) = bs \<or> int i = int (n * ns) - 1")
    case True
    then have lb: "loop_body mdl X args (RefFunc f) (int ns) bs rr hyp thr pcd (IntSeed s0)
                    (int (n * ns)) i s =
        run_batch mdl X args (RefFunc f) ns rr hyp thr pcd (IntSeed s0) ?s1"
      by (simp add: loop_body_def Let_def)
    from Suc.prems(1,2) have "b < Suc i" "Suc i \<le> n * ns" by simp_all
    from run_batch_ok(1) [OF ws ns this p1 b1, where thr = thr and pcd = pcd]
    show ?thesis unfolding up by (simp only: for_loop.simps lb sum.case)
  next
    case False
    then have lb: "loop_body mdl X args (RefFunc f) (int ns) bs rr hyp thr pcd (IntSeed s0)
                    (int (n * ns)) i s = Inr ?s1"
      by (simp add: loop_body_def Let_def)
    have "Suc i \<noteq> n * ns"
    proof
      assume "Suc i = n * ns"
      then have "int i = int (n * ns) - 1" by linarith
      with False show False by simp
    qed
    with Suc.prems(2) have lt: "Suc i < n * ns" by simp
    have d: "d = n * ns - Suc i" using Suc.hyps(2) by simp
    from Suc.prems(1) have "b \<le> Suc i" by simp
    from Suc.hyps(1) [OF d this lt p1 b1] show ?thesis
      unfolding up by (simp only: for_loop.simps lb sum.case)
  qed
qed

lemma shape_tensor_pos:
  assumes "is_tensor (n, a, l) X" and "0 < n"
  shows "snd (shape X) = (a, if a = 0 then 0 else l)"
proof -
  from is_tensor_tab3 [OF assms(1)] obtain f where "X = tab3 n a l f" ..
  with assms(2) show ?thesis by (simp add: shape_tab3)
qed

lemma regroup_refs:
  assumes X: "is_tensor (n, a, l) X" and n: "0 < n" and ns: "0 < ns"
    and rho: "\<And>x k. rect a l x \<Longrightarrow> rect a l (\<rho> x k)"
  shows "regroup n ns (snd (shape X)) (map (pair_ref \<rho> s0 X ns) [0..<n * ns]) =
           Inr (map (\<lambda>e. map (\<lambda>j. \<rho> (X ! e) (s0 + int j)) [0..<ns]) [0..<n])"
proof -
  from X have rX: "\<And>e. e < n \<Longrightarrow> rect a l (X ! e)" by (auto simp: is_tensor_iff)
  have r: "rect a l (pair_ref \<rho> s0 X ns i)" if "i < n * ns" for i
    unfolding pair_ref_def using that by (intro rho rX div_less_of_less_mult)
  have 1: "map (pair_ref \<rho> s0 X ns) [0..<n * ns] \<noteq> []" using n ns by simp
  have 2: "list_all (\<lambda>r. snd (shape [r]) = snd (shape X)) (map (pair_ref \<rho> s0 X ns) [0..<n * ns])"
    using r by (simp add: list_all_iff shape_single shape_tensor_pos [OF X n])
  have 3: "take ns (drop (e * ns) (map (pair_ref \<rho> s0 X ns) [0..<n * ns])) =
           map (\<lambda>j. \<rho> (X ! e) (s0 + int j)) [0..<ns]" if "e < n" for e
  proof -
    from that have "e * ns + ns \<le> n * ns"
      by (metis Suc_leI add.commute mult_Suc mult_le_mono1)
    then have "take ns (drop (e * ns) (map (pair_ref \<rho> s0 X ns) [0..<n * ns])) =
               map (pair_ref \<rho> s0 X ns) [e * ns..<e * ns + ns]"
      by (simp add: take_map drop_map take_upt)
    also have "\<dots> = map (\<lambda>j. \<rho> (X ! e) (s0 + int j)) [0..<ns]"
      using ns by (intro nth_equalityI) (simp_all add: pair_ref_def)
    finally show ?thesis .
  qed
  show ?thesis
    unfolding regroup_def using 1 2 3 by simp
qed

text \<open>
  C5. With a reference function and an integer \<^verbatim>\<open>random_state\<close>, the reference of the
  pair of example \<open>e\<close> and reference index \<open>j\<close> is made with the seed
  \<^verbatim>\<open>random_state + j\<close>, however the pairs fall into batches. For a reference function
  seeded by \<open>\<rho>\<close> and a batchwise model without max-pooling layer, both keeping the shape of
  the examples, \<^verbatim>\<open>deep_lift_shap\<close> returns for every example the average over its references
  of the hypothetical attributions (times the example unless \<^verbatim>\<open>hypothetical\<close>), and the
  references \<open>\<rho> (X ! e) (random_state + j)\<close> when asked for them, unless the registration
  of the hooks is blocked in the state at the call: then the first batch, whatever its size,
  raises \<^verbatim>\<open>RuntimeError\<close>. The result depends neither on \<^verbatim>\<open>batch_size\<close> nor on the
  state of the randomness at the call, so it is the same for every batch size and for every
  run with the same seed.
\<close>

theorem deep_lift_shap_batch_invariant:
  fixes n_shuffles batch_size :: int
  assumes sd: "seeded_by f \<rho>"
    and X: "is_tensor (n, a, l) X" and n: "0 < n" and ns: "0 < n_shuffles"
    and rho: "\<forall>x k. rect a l x \<longrightarrow> rect a l (\<rho> x k)"
    and args: "\<forall>as. args = Some as \<longrightarrow> list_all (\<lambda>arg. n \<le> length arg) as"
    and bw: "batchwise mdl grad_of"
    and nomax: "\<not> list_ex (\<lambda>m. issubclass (kind m) MaxPoolNd) (named_modules (tree mdl))"
    and grad: "\<forall>x r ar. rect a l x \<longrightarrow> rect a l r \<longrightarrow> rect a l (grad_of x r ar)"
  shows "deep_lift_shap mdl st g X args (RefFunc f) n_shuffles batch_size return_references
           hypothetical threshold print_convergence_deltas (IntSeed s0) =
         (if blocked [ReLU] st (tree mdl) then Inl RuntimeError
          else
            Inr (map (averaged (nat n_shuffles) hypothetical X
                        (pair_attr grad_of \<rho> s0 X args (nat n_shuffles) a l)) [0..<n],
                 if return_references
                 then Some (map (\<lambda>e. map (\<lambda>j. \<rho> (X ! e) (s0 + int j)) [0..<nat n_shuffles]) [0..<n])
                 else None))"
proof -
  define k where "k = nat n_shuffles"
  with ns have k: "0 < k" "n_shuffles = int k" by simp_all
  let ?attr = "pair_attr grad_of \<rho> s0 X args k a l"
  let ?ex = "averaged k hypothetical X ?attr"
  let ?ref = "pair_ref \<rho> s0 X k"
  let ?init = "\<lparr>Xi = [], rj = [], attr' = [], z = 0, attributions = [], references' = [],
                torch = st, rng = g\<rparr>"
  from X have lenX: "length X = n" and rX: "\<And>e. e < n \<Longrightarrow> rect a l (X ! e)"
    by (auto simp: is_tensor_iff)
  have ws: "well_set f \<rho> mdl grad_of X args n a l"
    using assms by (simp add: well_set_def)
  have p0: "pending k return_references ?attr ?ex ?ref 0 0 ?init"
    by (simp add: pending_def)
  have nn: "int (length X) * int k = int (n * k)" by (simp add: lenX)
  from n k(1) have pos: "0 < n * k" by simp
  show ?thesis
  proof (cases "blocked [ReLU] st (tree mdl)")
  case True
  then have "blocked [ReLU] (torch ?init) (tree mdl)" by simp
  from for_loop_blocked [OF ws k(1) le_refl pos p0 this, where bs = batch_size and thr = threshold
      and pcd = print_convergence_deltas]
  have "for_loop (loop_body mdl X args (RefFunc f) (int k) batch_size
        return_references hypothetical threshold print_convergence_deltas (IntSeed s0)
        (int (n * k))) [0..<n * k] ?init = Inl RuntimeError" .
  with True show ?thesis
    unfolding deep_lift_shap_def k_def [symmetric] k(2) Let_def references.case nn nat_int
    by simp
  next
  case False
  then have nb0: "\<not> blocked [ReLU] (torch ?init) (tree mdl)" by simp
  from n k(1) have "0 \<noteq> n * k" by simp
  then have "0 = n * k \<longrightarrow> (0::nat) = 0" by simp
  from for_loop_ok [OF ws k(1) le_refl _ this p0 nb0, where bs = batch_size and thr = threshold
      and pcd = print_convergence_deltas]
  obtain s1 where fl: "for_loop (loop_body mdl X args (RefFunc f) (int k) batch_size
        return_references hypothetical threshold print_convergence_deltas (IntSeed s0)
        (int (n * k))) [0..<n * k] ?init = Inr s1"
    and p: "pending k return_references ?attr ?ex ?ref (n * k) (n * k) s1"
    by auto
  from p k(1) have at: "attributions s1 = map ?ex [0..<n]"
    and rf: "references' s1 = (if return_references then map ?ref [0..<n * k] else [])"
    by (simp_all add: pending_def)
  have st: "stack (map ?ex [0..<n]) = Inr (map ?ex [0..<n])"
  proof (rule stack_rect [where a = a and l = l])
    show "map ?ex [0..<n] \<noteq> []" using n by simp
    show "rect a l t" if "t \<in> set (map ?ex [0..<n])" for t
      using that k(1) rX by (auto intro!: averaged_rect pair_attr_rect)
  qed
  have rg: "regroup n k (snd (shape X)) (map ?ref [0..<n * k]) =
           Inr (map (\<lambda>e. map (\<lambda>j. \<rho> (X ! e) (s0 + int j)) [0..<k]) [0..<n])"
    using rho by (intro regroup_refs [OF X n k(1)]) simp
  from False show ?thesis
    unfolding deep_lift_shap_def k_def [symmetric] k(2) Let_def references.case nn nat_int fl
    by (simp add: at st rf rg lenX)
  qed
qed

lemma seeded_by_shift: "seeded_by shift_generator shift"
  by (simp add: seeded_by_def shift_generator_def shift_def)

lemma batchwise_pairwise: "batchwise (pairwise_model t grad_of) grad_of"
  unfolding batchwise_def
proof (intro allI impI conjI)
  fix st :: torch_state and xs rs :: tensor and ao :: "activation list option"
  assume len: "length xs = length rs"
  show "list_all accepts_hooks (calls (forward_backward (pairwise_model t grad_of) st (xs @ rs) ao))"
    by (simp add: pairwise_model_def)
  have "map (\<lambda>k. grad_of ((xs @ rs) ! k) ((xs @ rs) ! (length (xs @ rs) div 2 + k))
                 (map_option (map (\<lambda>a. a ! k)) ao)) [0..<length (xs @ rs) div 2] =
        map (\<lambda>k. grad_of (xs ! k) (rs ! k) (map_option (map (\<lambda>a. a ! k)) ao)) [0..<length xs]"
    using len by (simp add: nth_append)
  then show "\<exists>outs. length outs = 2 * length xs \<and> list_all (\<lambda>row. row \<noteq> []) outs \<and>
      outcome (forward_backward (pairwise_model t grad_of) st (xs @ rs) ao) =
        Inr (outs, map (\<lambda>k. grad_of (xs ! k) (rs ! k) (map_option (map (\<lambda>a. a ! k)) ao))
                     [0..<length xs])"
    using len
    by (intro exI [of _ "map (\<lambda>s. [0]) (xs @ rs)"]) (auto simp: pairwise_model_def list_all_iff)
qed

lemma rect_shift: "rect a l x \<Longrightarrow> rect a l (shift x k)"
  by (simp add: rect_def shift_def list_all_iff)

lemma rect_toy_grad: "rect a l x \<Longrightarrow> rect a l r \<Longrightarrow> rect a l (toy_grad x r ar)"
  by (auto simp: rect_def toy_grad_def list_all_length)

theorem deep_lift_shap_batch_invariant_witness:
  "is_tensor (2, 2, 1) [[[1], [0]], [[0], [1]]] \<and>
   \<not> blocked [ReLU] initial_state (tree (pairwise_model (Node 0 Linear []) toy_grad)) \<and>
   deep_lift_shap (pairwise_model (Node 0 Linear []) toy_grad) initial_state (0 :: int)
     [[[1], [0]], [[0], [1]]] None (RefFunc shift_generator) 3 2 True False (1 / 1000) False
     (IntSeed 10) =
   Inr ([[[- (829 / 3)], [0]], [[0], [- (829 / 3)]]],
        Some [[[[11], [10]], [[12], [11]], [[13], [12]]],
              [[[10], [11]], [[11], [12]], [[12], [13]]]]) \<and>
   deep_lift_shap (pairwise_model (Node 0 Linear []) toy_grad) initial_state (0 :: int)
     [[[1], [0]], [[0], [1]]] None (RefFunc shift_generator) 3 4 True False (1 / 1000) False
     (IntSeed 10) =
   deep_lift_shap (pairwise_model (Node 0 Linear []) toy_grad) initial_state (0 :: int)
     [[[1], [0]], [[0], [1]]] None (RefFunc shift_generator) 3 2 True False (1 / 1000) False
     (IntSeed 10)"
proof -
  let ?X = "[[[1], [0]], [[0], [1]]] :: tensor"
  let ?mdl = "pairwise_model (Node 0 Linear []) toy_grad"
  have X: "is_tensor (2, 2, 1) ?X" by (simp add: is_tensor_def)
  have nomax: "\<not> list_ex (\<lambda>m. issubclass (kind m) MaxPoolNd) (named_modules (tree ?mdl))"
    by (simp add: pairwise_model_def issubclass_def)
  have rho: "\<forall>x k. rect 2 1 x \<longrightarrow> rect 2 1 (shift x k)" by (simp add: rect_shift)
  have args: "\<forall>as. (None :: activation list option) = Some as \<longrightarrow>
                list_all (\<lambda>arg. 2 \<le> length arg) as" by simp
  have grad: "\<forall>x r ar. rect 2 1 x \<longrightarrow> rect 2 1 r \<longrightarrow> rect 2 1 (toy_grad x r ar)"
    by (simp add: rect_toy_grad)
  have n: "0 < (2 :: nat)" and ns: "0 < (3 :: int)" by simp_all
  note t = deep_lift_shap_batch_invariant [OF seeded_by_shift X n ns rho args batchwise_pairwise
      nomax grad, where st = initial_state and g = "0 :: int" and return_references = True
      and hypothetical = False and threshold = "1 / 1000" and print_convergence_deltas = False
      and ?s0.0 = 10]
  have v: "map (averaged (nat 3) False ?X (pair_attr toy_grad shift 10 ?X None (nat 3) 2 1)) [0..<2] =
           [[[- (829 / 3)], [0]], [[0], [- (829 / 3)]]]"
    by (simp add: averaged_def pair_attr_def pair_ref_def pair_args_def proj_seq_def
        projection_def mean_seq_def shift_def toy_grad_def upt_conv_Cons lessThan_nat_numeral
        lessThan_Suc Let_def del: upt_Suc)
  have r: "map (\<lambda>e. map (\<lambda>j. shift (?X ! e) (10 + int j)) [0..<nat 3]) [0..<2] =
           [[[[11], [10]], [[12], [11]], [[13], [12]]],
            [[[10], [11]], [[11], [12]], [[12], [13]]]]"
    by (simp add: shift_def upt_conv_Cons del: upt_Suc)
  have nb: "blocked [ReLU] initial_state (tree ?mdl) = False"
    by (simp add: blocked_def pairwise_model_def isinstance_def issubclass_def)
  from t [where batch_size = 2] t [where batch_size = 4] X show ?thesis
    by (simp only: v r nb if_True if_False not_False_eq_True)
qed

section \<open>The conservation law\<close>













end
